theory Spec2Isabelle
  imports Complex_Main "HOL-Library.Char_ord" "HOL-Library.List_Lexorder"
begin

section \<open>Data model of polyscope.cpp\<close>

subsection \<open>Floating-point values and vectors\<close>

text \<open>
  The value of a \<open>float\<close> or a \<open>double\<close> is a real number, one of the two infinities, or
  not-a-number; the two zeros are one value. Converting a \<open>float\<close> to \<open>double\<close> keeps the
  value.
\<close>

datatype flt = Fin real | PInf | NInf | NaN

text \<open>
  Rounding in IEEE 754 binary arithmetic with precision \<open>p\<close> and exponent range
  \<open>emin\<close> to \<open>emax\<close>: the exact result goes to the nearest representable value, a tie to
  the one with even significand; below \<open>2 ^ emin\<close> the spacing stays that of the lowest
  binade (gradual underflow), and a result that rounds to \<open>2 ^ (emax + 1)\<close> or beyond is an
  infinity. \<open>round32\<close> is \<open>float\<close> (binary32), \<open>round64\<close> is \<open>double\<close> (binary64).
\<close>

definition pow2 :: "int \<Rightarrow> real" where
  "pow2 e = (if 0 \<le> e then 2 ^ nat e else 1 / 2 ^ nat (- e))"

definition rne :: "real \<Rightarrow> int" where
  "rne x =
     (let f = \<lfloor>x\<rfloor>; d = x - of_int f
      in if d < 1/2 then f else if 1/2 < d then f + 1 else if even f then f else f + 1)"

definition round_binary :: "nat \<Rightarrow> int \<Rightarrow> int \<Rightarrow> real \<Rightarrow> flt" where
  "round_binary p emin emax x =
     (if x = 0 then Fin 0
      else
        let e = max \<lfloor>log 2 \<bar>x\<bar>\<rfloor> emin;
            ulp = pow2 (e - (int p - 1));
            y = of_int (rne (x / ulp)) * ulp
        in if pow2 (emax + 1) \<le> \<bar>y\<bar> then (if 0 < x then PInf else NInf) else Fin y)"

definition round32 :: "real \<Rightarrow> flt" where
  "round32 = round_binary 24 (- 126) 127"

definition round64 :: "real \<Rightarrow> flt" where
  "round64 = round_binary 53 (- 1022) 1023"

text \<open>
  The arithmetic of this file is on \<open>float\<close> and \<open>glm::vec3\<close>, that is, in single precision:
  every operation yields the exact result rounded by \<open>round32\<close>. Comparisons, negation and
  absolute value are exact. On the special values the operations follow IEEE 754.
\<close>

fun fless :: "flt \<Rightarrow> flt \<Rightarrow> bool" where
  "fless NaN _ = False"
| "fless _ NaN = False"
| "fless (Fin a) (Fin b) = (a < b)"
| "fless (Fin a) PInf = True"
| "fless (Fin a) NInf = False"
| "fless PInf _ = False"
| "fless NInf NInf = False"
| "fless NInf _ = True"

text \<open>\<open>std::max(a, b)\<close> is \<open>(a < b) ? b : a\<close>, \<open>std::min(a, b)\<close> is \<open>(b < a) ? b : a\<close>.\<close>

definition std_max :: "flt \<Rightarrow> flt \<Rightarrow> flt" where
  "std_max a b = (if fless a b then b else a)"

definition std_min :: "flt \<Rightarrow> flt \<Rightarrow> flt" where
  "std_min a b = (if fless b a then b else a)"

fun fneg :: "flt \<Rightarrow> flt" where
  "fneg (Fin a) = Fin (- a)"
| "fneg PInf = NInf"
| "fneg NInf = PInf"
| "fneg NaN = NaN"

fun fadd :: "flt \<Rightarrow> flt \<Rightarrow> flt" where
  "fadd NaN _ = NaN"
| "fadd _ NaN = NaN"
| "fadd (Fin a) (Fin b) = round32 (a + b)"
| "fadd (Fin a) PInf = PInf"
| "fadd (Fin a) NInf = NInf"
| "fadd PInf NInf = NaN"
| "fadd PInf _ = PInf"
| "fadd NInf PInf = NaN"
| "fadd NInf _ = NInf"

definition fsub :: "flt \<Rightarrow> flt \<Rightarrow> flt" where
  "fsub a b = fadd a (fneg b)"

fun fmul :: "flt \<Rightarrow> flt \<Rightarrow> flt" where
  "fmul NaN _ = NaN"
| "fmul _ NaN = NaN"
| "fmul (Fin a) (Fin b) = round32 (a * b)"
| "fmul (Fin a) PInf = (if a = 0 then NaN else if 0 < a then PInf else NInf)"
| "fmul (Fin a) NInf = (if a = 0 then NaN else if 0 < a then NInf else PInf)"
| "fmul PInf (Fin b) = (if b = 0 then NaN else if 0 < b then PInf else NInf)"
| "fmul NInf (Fin b) = (if b = 0 then NaN else if 0 < b then NInf else PInf)"
| "fmul PInf PInf = PInf"
| "fmul PInf NInf = NInf"
| "fmul NInf PInf = NInf"
| "fmul NInf NInf = PInf"

fun fsqrt :: "flt \<Rightarrow> flt" where
  "fsqrt (Fin a) = (if a < 0 then NaN else round32 (sqrt a))"
| "fsqrt PInf = PInf"
| "fsqrt NInf = NaN"
| "fsqrt NaN = NaN"

fun fabs :: "flt \<Rightarrow> flt" where
  "fabs (Fin a) = Fin \<bar>a\<bar>"
| "fabs PInf = PInf"
| "fabs NInf = PInf"
| "fabs NaN = NaN"

text \<open>Division; the divisors of this file are converted integers, so a zero divisor is \<open>+0\<close>.\<close>

fun fdiv :: "flt \<Rightarrow> flt \<Rightarrow> flt" where
  "fdiv NaN _ = NaN"
| "fdiv _ NaN = NaN"
| "fdiv (Fin a) (Fin b) =
     (if b = 0 then (if a = 0 then NaN else if 0 < a then PInf else NInf)
      else round32 (a / b))"
| "fdiv (Fin a) _ = Fin 0"
| "fdiv PInf (Fin b) = (if 0 \<le> b then PInf else NInf)"
| "fdiv NInf (Fin b) = (if 0 \<le> b then NInf else PInf)"
| "fdiv _ _ = NaN"

fun isfinite :: "flt \<Rightarrow> bool" where
  "isfinite (Fin a) = True"
| "isfinite _ = False"

type_synonym vec3 = "flt \<times> flt \<times> flt"

fun vadd :: "vec3 \<Rightarrow> vec3 \<Rightarrow> vec3" where
  "vadd (a1, a2, a3) (b1, b2, b3) = (fadd a1 b1, fadd a2 b2, fadd a3 b3)"

fun vsub :: "vec3 \<Rightarrow> vec3 \<Rightarrow> vec3" where
  "vsub (a1, a2, a3) (b1, b2, b3) = (fsub a1 b1, fsub a2 b2, fsub a3 b3)"

fun vscale :: "flt \<Rightarrow> vec3 \<Rightarrow> vec3" where
  "vscale c (a1, a2, a3) = (fmul c a1, fmul c a2, fmul c a3)"

fun vneg :: "vec3 \<Rightarrow> vec3" where
  "vneg (a1, a2, a3) = (fneg a1, fneg a2, fneg a3)"

text \<open>
  \<open>glm::length\<close> is \<open>sqrt(dot(v, v))\<close>, and \<open>glm::dot\<close> on a \<open>vec3\<close> sums the three products
  from left to right; each of the six operations rounds to \<open>float\<close>.
\<close>

fun glm_length :: "vec3 \<Rightarrow> flt" where
  "glm_length (a1, a2, a3) = fsqrt (fadd (fadd (fmul a1 a1) (fmul a2 a2)) (fmul a3 a3))"

text \<open>
  Modelled from the spec: \<open>componentwiseMin\<close>, \<open>componentwiseMax\<close> and \<open>isFinite\<close> are
  declared outside polyscope.cpp. The spec describes the fold as component-wise min/max and
  the test as the box being finite; they are taken per component with \<open>std::min\<close>,
  \<open>std::max\<close> and \<open>std::isfinite\<close>.
\<close>

fun componentwiseMin :: "vec3 \<Rightarrow> vec3 \<Rightarrow> vec3" where
  "componentwiseMin (a1, a2, a3) (b1, b2, b3) = (std_min a1 b1, std_min a2 b2, std_min a3 b3)"

fun componentwiseMax :: "vec3 \<Rightarrow> vec3 \<Rightarrow> vec3" where
  "componentwiseMax (a1, a2, a3) (b1, b2, b3) = (std_max a1 b1, std_max a2 b2, std_max a3 b3)"

fun isFinite :: "vec3 \<Rightarrow> bool" where
  "isFinite (a1, a2, a3) = (isfinite a1 \<and> isfinite a2 \<and> isfinite a3)"

subsection \<open>Structures and the registry\<close>

text \<open>
  A \<open>Structure*\<close> is the address of the object together with what the registry reads from
  it: its immutable \<open>type\<close> and \<open>name\<close>, and the values its \<open>lengthScale()\<close> and
  \<open>boundingBox()\<close> methods report.
\<close>

record Structure =
  addr :: nat
  type :: string
  name :: string
  lengthScaleOf :: flt
  boundingBoxOf :: "vec3 \<times> vec3"

text \<open>
  A \<open>std::map<std::string, V>\<close> is an association list; iteration visits it front to back.
  \<open>map_of\<close> is \<open>find\<close>, \<open>map_set\<close> is assignment through \<open>operator[]\<close> (a new key goes to
  its place in key order), \<open>map_erase\<close> is \<open>erase\<close>.
\<close>

type_synonym 'v strmap = "(string \<times> 'v) list"

fun map_set :: "string \<Rightarrow> 'v \<Rightarrow> 'v strmap \<Rightarrow> 'v strmap" where
  "map_set k v [] = [(k, v)]"
| "map_set k v ((k', v') # m) =
     (if k = k' then (k, v) # m
      else if k < k' then (k, v) # (k', v') # m
      else (k', v') # map_set k v m)"

fun map_erase :: "string \<Rightarrow> 'v strmap \<Rightarrow> 'v strmap" where
  "map_erase k [] = []"
| "map_erase k ((k', v') # m) = (if k = k' then m else (k', v') # map_erase k m)"

type_synonym registry = "(Structure strmap) strmap"

subsection \<open>Pick state, callbacks, context stack\<close>

text \<open>
  Modelled from the spec: the pick module (pick.h) is outside polyscope.cpp. Its state is
  \<open>NoSelection\<close> or \<open>Selected\<close> with the selected structure (by address), the local index
  and whether the originating click was a double click.
\<close>

datatype PickState = NoSelection | Selected nat nat bool

text \<open>
  A \<open>std::function<void()>\<close> callback is a sequence of calls into this file, run from
  first to last each time the callback is invoked; \<open>None\<close> is the empty
  \<open>std::function\<close> (\<open>nullptr\<close>).
\<close>

datatype cmd =
    CallPopContext
  | CallPushContext "cmd list option"
  | CallRequestRedraw
  | CallRegisterStructure Structure bool
  | CallRemoveStructure string
  | CallRemoveStructureTyped string string bool
  | CallRemoveAllStructures

type_synonym callback = "cmd list option"

record ContextEntry =
  uiContext :: nat
  callback :: callback

datatype fault = UndefinedBehaviour | BadFunctionCall

subsection \<open>What one loop step reads from the window system and the GUI library\<close>

text \<open>
  The values that \<open>glfwGetFramebufferSize\<close>, \<open>glfwGetWindowSize\<close> and the GUI library's
  input state (\<open>ImGuiIO\<close>, \<open>ImGui::IsMouseClicked\<close> and so on) return during one loop step.
  \<open>pickX\<close> and \<open>pickY\<close> are the arguments \<open>io.DisplayFramebufferScale.x * p.x\<close> and
  \<open>io.DisplayFramebufferScale.y * p.y\<close> as converted to \<open>int\<close>. \<open>pickIndexAt x y\<close> is
  \<open>pick::vecToInd\<close> of the colour that \<open>readFloat4(x, y)\<close> returns once the structures have
  drawn their pick representation. \<open>screenshotButton\<close> and \<open>showPickBufferClicked\<close> are the
  results of the two widgets of the main panel.
\<close>

record FrameInput =
  newBufferWidth :: int
  newBufferHeight :: int
  newWindowWidth :: int
  newWindowHeight :: int
  anyMouseDown :: bool
  wantCaptureMouse :: bool
  mouseWheelH :: flt
  mouseWheel :: flt
  mouseClicked0 :: bool
  mouseDoubleClicked0 :: bool
  mouseDragging0 :: bool
  keyCtrl :: bool
  keyShift :: bool
  mouseDeltaX :: flt
  mouseDeltaY :: flt
  pickX :: int
  pickY :: int
  pickIndexAt :: "int \<Rightarrow> int \<Rightarrow> nat"
  screenshotButton :: bool
  showPickBufferClicked :: bool

subsection \<open>Global state\<close>

record state =
  \<comment> \<open>namespace state\<close>
  lengthScale :: flt
  boundingBox :: "vec3 \<times> vec3"
  center :: vec3
  structures :: registry
  userCallback :: callback
  screenshotInd :: nat
  \<comment> \<open>namespace options\<close>
  debugDrawPickBuffer :: bool
  alwaysRedraw :: bool
  \<comment> \<open>file-local globals\<close>
  contextStack :: "ContextEntry list"
  redrawNextFrame :: bool
  lastClickWasDouble :: bool
  dragDistSinceLastRelease :: flt
  \<comment> \<open>namespace view\<close>
  bufferWidth :: int
  bufferHeight :: int
  windowWidth :: int
  windowHeight :: int
  \<comment> \<open>namespace pick\<close>
  alwaysEvaluatePick :: bool
  pickState :: PickState
  pickTable :: "nat \<Rightarrow> nat \<times> nat"
  \<comment> \<open>the GUI library's current context and its next fresh context handle\<close>
  currentContext :: nat
  nextContext :: nat
  destroyedContexts :: "nat list"
  \<comment> \<open>the heap: the next fresh address and the addresses passed to \<open>delete\<close>\<close>
  nextAddr :: nat
  deleted :: "nat list"
  \<comment> \<open>observations: reported errors, scene rasterizations, loop steps run\<close>
  errors :: "string list"
  sceneDraws :: nat
  loopSteps :: nat

section \<open>Operations\<close>

text \<open>
  Modelled from the spec: \<open>polyscope::error\<close> is declared outside polyscope.cpp. The spec
  describes a non-fatal error-reporting channel: the message is recorded and the caller
  continues (\<open>options::errorsThrowExceptions\<close> keeps its initial value \<open>false\<close>).
\<close>

definition error :: "string \<Rightarrow> state \<Rightarrow> state" where
  "error msg st = st\<lparr>errors := errors st @ [msg]\<rparr>"

definition requestRedraw :: "state \<Rightarrow> state" where
  "requestRedraw st = st\<lparr>redrawNextFrame := True\<rparr>"

definition redrawRequested :: "state \<Rightarrow> bool" where
  "redrawRequested st = redrawNextFrame st"

subsection \<open>Extent aggregation\<close>

text \<open>
  \<open>updateStructureExtents\<close>: the two nested loops carry the running length scale (a
  \<open>double\<close>) and the running corners of the box (\<open>float\<close> vectors). The diagonal and the
  center are computed on \<open>glm::vec3\<close>, in single precision; the diagonal is then stored in
  the \<open>double\<close> \<open>state::lengthScale\<close>.
\<close>

fun extentsOfCategory ::
  "Structure strmap \<Rightarrow> flt \<times> vec3 \<times> vec3 \<Rightarrow> flt \<times> vec3 \<times> vec3" where
  "extentsOfCategory [] acc = acc"
| "extentsOfCategory ((k, x) # rest) (ls, minBbox, maxBbox) =
     extentsOfCategory rest
       (std_max ls (lengthScaleOf x),
        componentwiseMin minBbox (fst (boundingBoxOf x)),
        componentwiseMax maxBbox (snd (boundingBoxOf x)))"

fun extentsOfRegistry :: "registry \<Rightarrow> flt \<times> vec3 \<times> vec3 \<Rightarrow> flt \<times> vec3 \<times> vec3" where
  "extentsOfRegistry [] acc = acc"
| "extentsOfRegistry ((ty, cat) # rest) acc = extentsOfRegistry rest (extentsOfCategory cat acc)"

definition updateStructureExtents :: "state \<Rightarrow> state" where
  "updateStructureExtents st =
     (case extentsOfRegistry (structures st)
             (Fin 0, (PInf, PInf, PInf), (NInf, NInf, NInf)) of
        (ls, minFold, maxFold) \<Rightarrow>
          let nonFinite = (\<not> isFinite minFold \<or> \<not> isFinite maxFold);
              minBbox = (if nonFinite then vneg (Fin 1, Fin 1, Fin 1) else minFold);
              maxBbox = (if nonFinite then (Fin 1, Fin 1, Fin 1) else maxFold);
              ls' = (if ls = Fin 0 then glm_length (vsub maxBbox minBbox) else ls)
          in st\<lparr>lengthScale := ls',
                boundingBox := (minBbox, maxBbox),
                center := vscale (Fin (1/2)) (vadd minBbox maxBbox)\<rparr>)"

subsection \<open>Pick module\<close>

text \<open>
  Modelled from the spec: \<open>pick::resetPick\<close>, \<open>pick::setCurrentPickElement\<close> and
  \<open>pick::clearPickIfStructureSelected\<close> are declared outside polyscope.cpp. Per the spec,
  resetting gives \<open>NoSelection\<close>; a nonzero index is resolved against the global table of
  index to (structure, local index) and gives \<open>Selected\<close> with the double-click flag passed
  in; the selection is reset when it references the structure being removed.
\<close>

definition resetPick :: "state \<Rightarrow> state" where
  "resetPick st = st\<lparr>pickState := NoSelection\<rparr>"

definition setCurrentPickElement :: "nat \<Rightarrow> bool \<Rightarrow> state \<Rightarrow> state" where
  "setCurrentPickElement ind wasDoubleClick st =
     (case pickTable st ind of
        (a, localInd) \<Rightarrow> st\<lparr>pickState := Selected a localInd wasDoubleClick\<rparr>)"

definition clearPickIfStructureSelected :: "Structure \<Rightarrow> state \<Rightarrow> state" where
  "clearPickIfStructureSelected s st =
     (case pickState st of
        NoSelection \<Rightarrow> st
      | Selected a localInd dbl \<Rightarrow> (if a = addr s then resetPick st else st))"

subsection \<open>Structure registry\<close>

text \<open>
  \<open>map_at\<close> reads through \<open>operator[]\<close>; \<open>map_modify\<close> is a write through the reference
  \<open>sMap\<close> that \<open>operator[]\<close> returned for an existing key.
\<close>

definition map_at :: "registry \<Rightarrow> string \<Rightarrow> Structure strmap" where
  "map_at reg ty = (case map_of reg ty of None \<Rightarrow> [] | Some m \<Rightarrow> m)"

fun map_modify :: "string \<Rightarrow> ('v \<Rightarrow> 'v) \<Rightarrow> 'v strmap \<Rightarrow> 'v strmap" where
  "map_modify k f [] = []"
| "map_modify k f ((k', v) # m) = (if k = k' then (k', f v) # m else (k', v) # map_modify k f m)"

text \<open>\<open>removeStructure(type, name, errorIfAbsent)\<close>.\<close>

definition removeStructure :: "string \<Rightarrow> string \<Rightarrow> bool \<Rightarrow> state \<Rightarrow> state" where
  "removeStructure ty nm errorIfAbsent st =
     (case map_of (structures st) ty of
        None \<Rightarrow>
          (if errorIfAbsent then error (''No structures of type '' @ ty @ '' registered'') st
           else st)
      | Some sMap \<Rightarrow>
          (case map_of sMap nm of
             None \<Rightarrow>
               (if errorIfAbsent
                then error (''No structure of type '' @ ty @ '' and name '' @ nm @ '' registered'') st
                else st)
           | Some s \<Rightarrow>
               let st1 = clearPickIfStructureSelected s st;
                   st2 = st1\<lparr>structures := map_modify ty (map_erase (name s)) (structures st1)\<rparr>;
                   st3 = st2\<lparr>deleted := deleted st2 @ [addr s]\<rparr>
               in updateStructureExtents st3))"

text \<open>
  \<open>removeStructure(name)\<close>: the scan for the target keeps the first match in
  \<open>targetStruct\<close> and stops with the error message at a second one.
\<close>

definition ambiguousMessage :: "string \<Rightarrow> string \<Rightarrow> string" where
  "ambiguousMessage t1 t2 =
     ''Cannot use automatic structure remove with empty name unless there is exactly one structure of that ''
     @ ''type registered. Found two structures of different types with that name: ''
     @ t1 @ '' and '' @ t2 @ ''.''"

fun scanCategory ::
  "string \<Rightarrow> string \<Rightarrow> Structure strmap \<Rightarrow> Structure option \<Rightarrow> string + Structure option" where
  "scanCategory nm ty [] targetStruct = Inr targetStruct"
| "scanCategory nm ty ((k, s) # rest) targetStruct =
     (if k = nm then
        (case targetStruct of
           None \<Rightarrow> scanCategory nm ty rest (Some s)
         | Some t \<Rightarrow> Inl (ambiguousMessage (type t) ty))
      else scanCategory nm ty rest targetStruct)"

fun scanRegistry ::
  "string \<Rightarrow> registry \<Rightarrow> Structure option \<Rightarrow> string + Structure option" where
  "scanRegistry nm [] targetStruct = Inr targetStruct"
| "scanRegistry nm ((ty, m) # rest) targetStruct =
     (case scanCategory nm ty m targetStruct of
        Inl msg \<Rightarrow> Inl msg
      | Inr t \<Rightarrow> scanRegistry nm rest t)"

definition removeStructureByName :: "string \<Rightarrow> state \<Rightarrow> state" where
  "removeStructureByName nm st =
     (case scanRegistry nm (structures st) None of
        Inl msg \<Rightarrow> error msg st
      | Inr None \<Rightarrow> error (''No structure named: '' @ nm @ '' to remove.'') st
      | Inr (Some t) \<Rightarrow> requestRedraw (removeStructure (type t) (name t) True st))"

text \<open>
  \<open>removeAllStructures\<close>: the names of a type are collected before any of them is removed.
  Removing a structure changes only the inner map of the type being visited, so the outer
  loop sees each later type as it was when the loop began.
\<close>

fun removeNames :: "string \<Rightarrow> string list \<Rightarrow> state \<Rightarrow> state" where
  "removeNames ty [] st = st"
| "removeNames ty (nm # names) st = removeNames ty names (removeStructure ty nm True st)"

fun removeEachType :: "registry \<Rightarrow> state \<Rightarrow> state" where
  "removeEachType [] st = st"
| "removeEachType ((ty, m) # rest) st = removeEachType rest (removeNames ty (map fst m) st)"

definition removeAllStructures :: "state \<Rightarrow> state" where
  "removeAllStructures st = resetPick (requestRedraw (removeEachType (structures st) st))"

text \<open>\<open>registerStructure\<close> returns its result together with the new state.\<close>

definition registerStructure :: "Structure \<Rightarrow> bool \<Rightarrow> state \<Rightarrow> bool \<times> state" where
  "registerStructure s replaceIfPresent st =
     (let st1 = (if map_of (structures st) (type s) = None
                 then st\<lparr>structures := map_set (type s) [] (structures st)\<rparr>
                 else st);
          inUse = (map_of (map_at (structures st1) (type s)) (name s) \<noteq> None)
      in if inUse \<and> \<not> replaceIfPresent then
           (False, error (''Attempted to register structure with name '' @ name s
                          @ '', but a structure with that name already exists'') st1)
         else
           let st2 = (if inUse then removeStructureByName (name s) st1 else st1);
               st3 = st2\<lparr>structures := map_modify (type s) (map_set (name s) s) (structures st2)\<rparr>
           in (True, requestRedraw (updateStructureExtents st3)))"

text \<open>
  Modelled from the spec: the default value of \<open>replaceIfPresent\<close> belongs to the
  declaration of \<open>registerStructure\<close> in polyscope.h, which is outside polyscope.cpp. The
  spec gives \<open>register(structure, replaceIfPresent=false)\<close>.
\<close>

definition registerStructure_default_replaceIfPresent :: bool where
  "registerStructure_default_replaceIfPresent = False"

text \<open>
  The typed wrappers. The constructors and the type tags (\<open>PointCloud::structureTypeName\<close>
  and its siblings) are declared outside polyscope.cpp: the tag is the parameter
  \<open>structureTypeName\<close>, and the data handed to the constructor is represented by the length
  scale and bounding box the new object reports. \<open>new\<close> takes the next fresh address.
\<close>

definition newStructure ::
  "string \<Rightarrow> string \<Rightarrow> flt \<times> (vec3 \<times> vec3) \<Rightarrow> state \<Rightarrow> Structure \<times> state" where
  "newStructure ty nm geometry st =
     (\<lparr>addr = nextAddr st, type = ty, name = nm,
       lengthScaleOf = fst geometry, boundingBoxOf = snd geometry\<rparr>,
      st\<lparr>nextAddr := Suc (nextAddr st)\<rparr>)"

definition registerPointCloud ::
  "string \<Rightarrow> string \<Rightarrow> flt \<times> (vec3 \<times> vec3) \<Rightarrow> bool \<Rightarrow> state \<Rightarrow> state" where
  "registerPointCloud structureTypeName nm points replaceIfPresent st =
     (case newStructure structureTypeName nm points st of
        (s, st1) \<Rightarrow>
          (case registerStructure s registerStructure_default_replaceIfPresent st1 of
             (success, st2) \<Rightarrow>
               if \<not> success then st2\<lparr>deleted := deleted st2 @ [addr s]\<rparr> else st2))"

definition registerSurfaceMesh ::
  "string \<Rightarrow> string \<Rightarrow> flt \<times> (vec3 \<times> vec3) \<Rightarrow> bool \<Rightarrow> state \<Rightarrow> state" where
  "registerSurfaceMesh structureTypeName nm mesh replaceIfPresent st =
     (case newStructure structureTypeName nm mesh st of
        (s, st1) \<Rightarrow>
          (case registerStructure s registerStructure_default_replaceIfPresent st1 of
             (success, st2) \<Rightarrow>
               if \<not> success then st2\<lparr>deleted := deleted st2 @ [addr s]\<rparr> else st2))"

definition registerCameraView ::
  "string \<Rightarrow> string \<Rightarrow> flt \<times> (vec3 \<times> vec3) \<Rightarrow> bool \<Rightarrow> state \<Rightarrow> state" where
  "registerCameraView structureTypeName nm p replaceIfPresent st =
     (case newStructure structureTypeName nm p st of
        (s, st1) \<Rightarrow>
          (case registerStructure s registerStructure_default_replaceIfPresent st1 of
             (success, st2) \<Rightarrow>
               if \<not> success then st2\<lparr>deleted := deleted st2 @ [addr s]\<rparr> else st2))"

definition registerRaySet ::
  "string \<Rightarrow> string \<Rightarrow> flt \<times> (vec3 \<times> vec3) \<Rightarrow> bool \<Rightarrow> state \<Rightarrow> state" where
  "registerRaySet structureTypeName nm r replaceIfPresent st =
     (case newStructure structureTypeName nm r st of
        (s, st1) \<Rightarrow>
          (case registerStructure s registerStructure_default_replaceIfPresent st1 of
             (success, st2) \<Rightarrow>
               if \<not> success then st2\<lparr>deleted := deleted st2 @ [addr s]\<rparr> else st2))"

subsection \<open>Context stack\<close>

text \<open>\<open>popContext\<close>: \<open>pop_back\<close> on an empty vector is undefined behaviour.\<close>

definition popContext :: "state \<Rightarrow> fault + state" where
  "popContext st =
     (let st1 = (if length (contextStack st) = 1
                 then error ''Called popContext() too many times'' st else st)
      in if contextStack st1 = [] then Inl UndefinedBehaviour
         else Inr (st1\<lparr>contextStack := butlast (contextStack st1)\<rparr>))"

subsection \<open>Picking and pointer events\<close>

definition evaluatePickQuery :: "(int \<Rightarrow> int \<Rightarrow> nat) \<Rightarrow> int \<Rightarrow> int \<Rightarrow> state \<Rightarrow> state" where
  "evaluatePickQuery readInd xPos yPos st =
     (if xPos < 0 \<or> xPos \<ge> bufferWidth st \<or> yPos < 0 \<or> yPos \<ge> bufferHeight st then st
      else
        let ind = readInd xPos (bufferHeight st - yPos)
        in if ind = 0 then resetPick st
           else setCurrentPickElement ind (lastClickWasDouble st) st)"

text \<open>
  \<open>processMouseEvents\<close>. The calls into the camera (\<open>view::processZoom\<close> and its siblings)
  change nothing that this model holds and are left out. The drag distance is a \<open>float\<close>:
  the window size is converted to \<open>float\<close>, the quotient and the two additions round to
  \<open>float\<close>, and the sum is compared as a \<open>double\<close> with the \<open>double\<close> literal \<open>.01\<close>.
\<close>

definition processMouseEvents :: "FrameInput \<Rightarrow> state \<Rightarrow> state" where
  "processMouseEvents io st =
     (let st1 = (if anyMouseDown io then requestRedraw st else st);
          st2 = (if \<not> wantCaptureMouse io \<and> (mouseWheelH io \<noteq> Fin 0 \<or> mouseWheel io \<noteq> Fin 0)
                 then requestRedraw st1 else st1);
          shouldEvaluatePick = alwaysEvaluatePick st2;
          st3 = (if alwaysEvaluatePick st2 then resetPick st2 else st2);
          st4 = (if mouseClicked0 io then st3\<lparr>lastClickWasDouble := mouseDoubleClicked0 io\<rparr>
                 else st3);
          (shouldEvaluatePick', st5) =
            (if \<not> wantCaptureMouse io then
               (if mouseDragging0 io \<and> \<not> (keyCtrl io \<and> \<not> keyShift io) then
                  let st4a = requestRedraw st4;
                      dragDeltaX = fdiv (mouseDeltaX io) (round32 (real_of_int (windowWidth st4a)));
                      dragDeltaY = fdiv (fneg (mouseDeltaY io))
                                     (round32 (real_of_int (windowHeight st4a)));
                      d1 = fadd (dragDistSinceLastRelease st4a) (fabs dragDeltaX);
                      d2 = fadd d1 (fabs dragDeltaY)
                  in (shouldEvaluatePick, st4a\<lparr>dragDistSinceLastRelease := d2\<rparr>)
                else
                  (shouldEvaluatePick \<or> fless (dragDistSinceLastRelease st4) (round64 (1/100)),
                   st4\<lparr>dragDistSinceLastRelease := Fin 0\<rparr>))
             else (shouldEvaluatePick, st4))
      in if shouldEvaluatePick' then evaluatePickQuery (pickIndexAt io) (pickX io) (pickY io) st5
         else st5)"

subsection \<open>Drawing and the main loop\<close>

text \<open>
  \<open>drawStructures\<close> rasterizes the scene; the model counts the calls. Each structure's own
  \<open>draw\<close> or \<open>drawPick\<close> is outside this file.
\<close>

definition drawStructures :: "state \<Rightarrow> state" where
  "drawStructures st = st\<lparr>sceneDraws := Suc (sceneDraws st)\<rparr>"

text \<open>
  \<open>buildPickGui\<close> reads the type and name of the selected structure through the pointer
  that the pick state holds: undefined behaviour once that structure has been deleted.
\<close>

definition buildPickGui :: "state \<Rightarrow> fault + state" where
  "buildPickGui st =
     (case pickState st of
        NoSelection \<Rightarrow> Inr st
      | Selected a localInd dbl \<Rightarrow> (if a \<in> set (deleted st) then Inl UndefinedBehaviour else Inr st))"

text \<open>
  An outcome is a fault (\<open>Some (Inl f)\<close>), a normal return (\<open>Some (Inr st)\<close>), or no return
  within the fuel given (\<open>None\<close>).
\<close>

type_synonym outcome = "(fault + state) option"

definition andThen :: "outcome \<Rightarrow> (state \<Rightarrow> outcome) \<Rightarrow> outcome" where
  "andThen r f = (case r of None \<Rightarrow> None | Some (Inl e) \<Rightarrow> Some (Inl e) | Some (Inr st) \<Rightarrow> f st)"

text \<open>
  The functions from which a callback can re-enter the main loop take as \<open>reenter\<close> the
  \<open>pushContext\<close> that the callback reaches. \<open>runCallback\<close> invokes a callback.
\<close>

fun runCallback :: "(callback \<Rightarrow> state \<Rightarrow> outcome) \<Rightarrow> cmd list \<Rightarrow> state \<Rightarrow> outcome" where
  "runCallback reenter [] st = Some (Inr st)"
| "runCallback reenter (c # cs) st =
     andThen
       (case c of
          CallPopContext \<Rightarrow> Some (popContext st)
        | CallPushContext cb \<Rightarrow> reenter cb st
        | CallRequestRedraw \<Rightarrow> Some (Inr (requestRedraw st))
        | CallRegisterStructure s replaceIfPresent \<Rightarrow>
            Some (Inr (snd (registerStructure s replaceIfPresent st)))
        | CallRemoveStructure nm \<Rightarrow> Some (Inr (removeStructureByName nm st))
        | CallRemoveStructureTyped ty nm errorIfAbsent \<Rightarrow>
            Some (Inr (removeStructure ty nm errorIfAbsent st))
        | CallRemoveAllStructures \<Rightarrow> Some (Inr (removeAllStructures st)))
       (runCallback reenter cs)"

text \<open>
  \<open>draw(withUI)\<close>, and \<open>screenshot(bool)\<close> with \<open>screenshot(std::string, bool)\<close> inlined
  (reading the pixels back and writing the image file change nothing here).
  \<open>buildUserGui\<close> and \<open>buildPolyscopeGui\<close> are written out where \<open>draw\<close> calls them;
  \<open>buildStructureGui\<close>, \<open>renderSceneToScreen\<close> and the calls into the window system and
  the GUI library change nothing here.
\<close>

function screenshot ::
    "(callback \<Rightarrow> state \<Rightarrow> outcome) \<Rightarrow> FrameInput \<Rightarrow> bool \<Rightarrow> state \<Rightarrow> outcome"
  and draw :: "(callback \<Rightarrow> state \<Rightarrow> outcome) \<Rightarrow> FrameInput \<Rightarrow> bool \<Rightarrow> state \<Rightarrow> outcome"
where
  "screenshot reenter io transparentBG st =
     andThen (draw reenter io False (requestRedraw st))
       (\<lambda>st'. Some (Inr (st'\<lparr>screenshotInd := Suc (screenshotInd st')\<rparr>)))"
| "draw reenter io withUI st =
     andThen
       (if withUI then
          (if length (contextStack st) = 1 then
             andThen (case userCallback st of
                        None \<Rightarrow> Some (Inr st)
                      | Some cb \<Rightarrow> runCallback reenter cb st)
               (\<lambda>st1. andThen (if screenshotButton io then screenshot reenter io True st1
                               else Some (Inr st1))
                  (\<lambda>st2. Some (buildPickGui
                     (if showPickBufferClicked io
                      then st2\<lparr>debugDrawPickBuffer := \<not> debugDrawPickBuffer st2\<rparr> else st2))))
           else
             (case contextStack st of
                [] \<Rightarrow> Some (Inl UndefinedBehaviour)
              | _ \<Rightarrow> (case callback (last (contextStack st)) of
                        None \<Rightarrow> Some (Inl BadFunctionCall)
                      | Some cb \<Rightarrow> runCallback reenter cb st)))
        else Some (Inr st))
       (\<lambda>st1. Some (Inr (if redrawNextFrame st1 \<or> alwaysRedraw st1
                         then (drawStructures st1)\<lparr>redrawNextFrame := False\<rparr>
                         else st1)))"
  by pat_completeness auto
termination
  by (relation "measure (\<lambda>x. case x of Inl _ \<Rightarrow> 1 | Inr (reenter, io, withUI, st) \<Rightarrow> if withUI then 2 else 0)")
     auto

text \<open>
  \<open>mainLoopIteration\<close>: \<open>io\<close> is what the size queries and \<open>glfwPollEvents\<close> deliver in this
  loop step. The pacing wait at the top reads only the clock, and \<open>showDelayedWarnings\<close> is
  outside this file; neither changes anything here. The model counts the loop steps.
\<close>

definition mainLoopIteration ::
  "(callback \<Rightarrow> state \<Rightarrow> outcome) \<Rightarrow> FrameInput \<Rightarrow> state \<Rightarrow> outcome" where
  "mainLoopIteration reenter io st =
     (let st0 = st\<lparr>loopSteps := Suc (loopSteps st)\<rparr>;
          st1 = (if newBufferWidth io \<noteq> bufferWidth st0 \<or> newBufferHeight io \<noteq> bufferHeight st0
                    \<or> newWindowHeight io \<noteq> windowHeight st0 \<or> newWindowWidth io \<noteq> windowWidth st0
                 then (requestRedraw st0)\<lparr>bufferWidth := newBufferWidth io,
                                          bufferHeight := newBufferHeight io,
                                          windowWidth := newWindowWidth io,
                                          windowHeight := newWindowHeight io\<rparr>
                 else st0);
          st2 = processMouseEvents io st1
      in draw reenter io True st2)"

text \<open>
  \<open>pushContext\<close> and its \<open>while\<close> loop, \<open>pushContextLoop\<close>. The loop may run forever, so both
  take fuel: each loop step and each nested \<open>pushContext\<close> gets one unit less. \<open>env k\<close> is
  what the \<open>k\<close>-th loop step of the run reads.
\<close>

fun pushContext :: "(nat \<Rightarrow> FrameInput) \<Rightarrow> nat \<Rightarrow> callback \<Rightarrow> state \<Rightarrow> outcome"
  and pushContextLoop :: "(nat \<Rightarrow> FrameInput) \<Rightarrow> nat \<Rightarrow> nat \<Rightarrow> state \<Rightarrow> outcome"
where
  "pushContext env 0 callbackFunction st = None"
| "pushContext env (Suc n) callbackFunction st =
     (let newContext = nextContext st;
          st1 = st\<lparr>nextContext := Suc newContext,
                   currentContext := newContext,
                   contextStack := contextStack st
                                   @ [\<lparr>uiContext = newContext, callback = callbackFunction\<rparr>]\<rparr>;
          currentContextStackSize = length (contextStack st1)
      in andThen (pushContextLoop env n currentContextStackSize st1)
           (\<lambda>st2. let st3 = st2\<lparr>destroyedContexts := destroyedContexts st2 @ [newContext]\<rparr>
                  in if contextStack st3 = [] then Some (Inl UndefinedBehaviour)
                     else Some (Inr (st3\<lparr>currentContext := uiContext (last (contextStack st3))\<rparr>))))"
| "pushContextLoop env 0 currentContextStackSize st =
     (if length (contextStack st) \<ge> currentContextStackSize then None else Some (Inr st))"
| "pushContextLoop env (Suc n) currentContextStackSize st =
     (if length (contextStack st) \<ge> currentContextStackSize
      then andThen (mainLoopIteration (\<lambda>cb st'. pushContext env n cb st') (env (loopSteps st)) st)
             (\<lambda>st'. pushContextLoop env n currentContextStackSize st')
      else Some (Inr st))"

section \<open>Specification-level notions\<close>

text \<open>
  The structures named \<open>nm\<close>, each with the type tag it is registered under, in iteration
  order; and the registry as a \<open>std::map\<close> of \<open>std::map\<close>s built by \<open>registerStructure\<close>:
  keys are unique, and every structure sits under its own type and name.
\<close>

definition matchesIn :: "string \<Rightarrow> string \<Rightarrow> Structure strmap \<Rightarrow> (string \<times> Structure) list" where
  "matchesIn nm ty m = map (\<lambda>(k, s). (ty, s)) (filter (\<lambda>(k, s). k = nm) m)"

definition matches :: "string \<Rightarrow> registry \<Rightarrow> (string \<times> Structure) list" where
  "matches nm reg = concat (map (\<lambda>(ty, m). matchesIn nm ty m) reg)"

definition wf_registry :: "registry \<Rightarrow> bool" where
  "wf_registry reg =
     (distinct (map fst reg) \<and>
      list_all (\<lambda>(ty, m). distinct (map fst m)
                  \<and> list_all (\<lambda>(k, s). type s = ty \<and> name s = k) m) reg)"

text \<open>
  A \<open>std::map\<close> keeps its keys in strictly ascending order. \<open>registry_inv\<close> is what the
  registry is at every moment: a \<open>std::map\<close> of \<open>std::map\<close>s in which every structure sits
  under its own type and name.
\<close>

definition std_map :: "'v strmap \<Rightarrow> bool" where
  "std_map m = sorted_wrt (<) (map fst m)"

definition registry_inv :: "registry \<Rightarrow> bool" where
  "registry_inv reg =
     (std_map reg \<and>
      list_all (\<lambda>(ty, m). std_map m \<and> list_all (\<lambda>(k, s). type s = ty \<and> name s = k) m) reg)"

text \<open>
  The extent fold in the words of the specification: over all registered structures, the
  length scale by maximum and the box by component-wise minimum and maximum.
\<close>

definition allStructures :: "registry \<Rightarrow> Structure list" where
  "allStructures reg = concat (map (\<lambda>(ty, m). map snd m) reg)"

definition spec_foldedLengthScale :: "registry \<Rightarrow> flt" where
  "spec_foldedLengthScale reg = foldl std_max (Fin 0) (map lengthScaleOf (allStructures reg))"

definition spec_foldedMin :: "registry \<Rightarrow> vec3" where
  "spec_foldedMin reg =
     foldl componentwiseMin (PInf, PInf, PInf)
       (map (\<lambda>s. fst (boundingBoxOf s)) (allStructures reg))"

definition spec_foldedMax :: "registry \<Rightarrow> vec3" where
  "spec_foldedMax reg =
     foldl componentwiseMax (NInf, NInf, NInf)
       (map (\<lambda>s. snd (boundingBoxOf s)) (allStructures reg))"

definition unitBoxMin :: vec3 where
  "unitBoxMin = (Fin (- 1), Fin (- 1), Fin (- 1))"

definition unitBoxMax :: vec3 where
  "unitBoxMax = (Fin 1, Fin 1, Fin 1)"

text \<open>
  The scene step of a draw in the words of the specification: the scene is rasterized when
  the redraw flag or the always-redraw override is set, and the flag is clear afterwards.
\<close>

definition spec_sceneStep :: "state \<Rightarrow> state" where
  "spec_sceneStep st =
     (if redrawRequested st \<or> alwaysRedraw st
      then st\<lparr>sceneDraws := Suc (sceneDraws st), redrawNextFrame := False\<rparr>
      else st)"

text \<open>The state in which \<open>mainLoopIteration\<close> calls \<open>draw\<close>.\<close>

definition beforeDraw :: "FrameInput \<Rightarrow> state \<Rightarrow> state" where
  "beforeDraw io st =
     (let st0 = st\<lparr>loopSteps := Suc (loopSteps st)\<rparr>;
          st1 = (if newBufferWidth io \<noteq> bufferWidth st0 \<or> newBufferHeight io \<noteq> bufferHeight st0
                    \<or> newWindowHeight io \<noteq> windowHeight st0 \<or> newWindowWidth io \<noteq> windowWidth st0
                 then (requestRedraw st0)\<lparr>bufferWidth := newBufferWidth io,
                                          bufferHeight := newBufferHeight io,
                                          windowWidth := newWindowWidth io,
                                          windowHeight := newWindowHeight io\<rparr>
                 else st0)
      in processMouseEvents io st1)"

text \<open>
  The part of \<open>draw(withUI)\<close> that precedes the scene step. On the root context it runs the
  user callback, serves the screenshot button and the pick-buffer toggle, and builds the
  pick GUI; on a nested context it runs the callback of the innermost context; without the
  GUI it does nothing.
\<close>

definition drawGui ::
  "(callback \<Rightarrow> state \<Rightarrow> outcome) \<Rightarrow> FrameInput \<Rightarrow> bool \<Rightarrow> state \<Rightarrow> outcome" where
  "drawGui reenter io withUI st =
     (if withUI then
        (if length (contextStack st) = 1 then
           andThen (case userCallback st of
                      None \<Rightarrow> Some (Inr st)
                    | Some cb \<Rightarrow> runCallback reenter cb st)
             (\<lambda>st1. andThen (if screenshotButton io then screenshot reenter io True st1
                             else Some (Inr st1))
                (\<lambda>st2. Some (buildPickGui
                   (if showPickBufferClicked io
                    then st2\<lparr>debugDrawPickBuffer := \<not> debugDrawPickBuffer st2\<rparr> else st2))))
         else
           (case contextStack st of
              [] \<Rightarrow> Some (Inl UndefinedBehaviour)
            | _ \<Rightarrow> (case callback (last (contextStack st)) of
                      None \<Rightarrow> Some (Inl BadFunctionCall)
                    | Some cb \<Rightarrow> runCallback reenter cb st)))
      else Some (Inr st))"

text \<open>
  A callback that does not call \<open>pushContext\<close> does not start a nested loop. \<open>noReentry\<close> says
  so of the user callback and of the callback of every context on the stack.
\<close>

fun isPushContext :: "cmd \<Rightarrow> bool" where
  "isPushContext (CallPushContext cb) = True"
| "isPushContext _ = False"

definition noReentry :: "state \<Rightarrow> bool" where
  "noReentry st =
     ((case userCallback st of None \<Rightarrow> True | Some cb \<Rightarrow> list_all (\<lambda>c. \<not> isPushContext c) cb)
      \<and> list_all (\<lambda>e. case callback e of None \<Rightarrow> True
                         | Some cb \<Rightarrow> list_all (\<lambda>c. \<not> isPushContext c) cb) (contextStack st))"

text \<open>
  The second state has the rasterization count and the always-redraw override of the first,
  and a redraw request pending in the first is still pending in the second.
\<close>

definition sceneUntouched :: "state \<Rightarrow> state \<Rightarrow> bool" where
  "sceneUntouched st s =
     (sceneDraws s = sceneDraws st \<and> alwaysRedraw s = alwaysRedraw st
      \<and> (redrawNextFrame st \<longrightarrow> redrawNextFrame s))"

text \<open>The pick state references no structure outside the registry.\<close>

definition pickValid :: "state \<Rightarrow> bool" where
  "pickValid st =
     (case pickState st of
        NoSelection \<Rightarrow> True
      | Selected a localInd dbl \<Rightarrow> a \<in> set (map addr (allStructures (structures st))))"

section \<open>Example states\<close>

text \<open>
  The globals as the file initialises them, with the root context that \<open>init\<close> pushes, an
  empty registry and a window of 1280 by 720.
\<close>

definition rootEntry :: ContextEntry where
  "rootEntry = \<lparr>uiContext = 0, callback = None\<rparr>"

definition initialState :: state where
  "initialState =
     \<lparr>lengthScale = Fin 1,
      boundingBox = ((Fin 0, Fin 0, Fin 0), (Fin 0, Fin 0, Fin 0)),
      center = (Fin 0, Fin 0, Fin 0),
      structures = [],
      userCallback = None,
      screenshotInd = 0,
      debugDrawPickBuffer = False,
      alwaysRedraw = False,
      contextStack = [rootEntry],
      redrawNextFrame = True,
      lastClickWasDouble = False,
      dragDistSinceLastRelease = Fin 0,
      bufferWidth = 1280,
      bufferHeight = 720,
      windowWidth = 1280,
      windowHeight = 720,
      alwaysEvaluatePick = False,
      pickState = NoSelection,
      pickTable = (\<lambda>ind. (1, ind)),
      currentContext = 0,
      nextContext = 1,
      destroyedContexts = [],
      nextAddr = 4,
      deleted = [],
      errors = [],
      sceneDraws = 0,
      loopSteps = 0\<rparr>"

definition exampleBox :: "vec3 \<times> vec3" where
  "exampleBox = ((Fin 0, Fin 0, Fin 0), (Fin 1, Fin 2, Fin 2))"

definition exampleCloud :: Structure where
  "exampleCloud = \<lparr>addr = 1, type = ''Point Cloud'', name = ''bunny'',
                   lengthScaleOf = Fin 3, boundingBoxOf = exampleBox\<rparr>"

definition exampleMesh :: Structure where
  "exampleMesh = \<lparr>addr = 2, type = ''Surface Mesh'', name = ''bunny'',
                  lengthScaleOf = Fin 3, boundingBoxOf = exampleBox\<rparr>"

definition exampleCloud2 :: Structure where
  "exampleCloud2 = \<lparr>addr = 3, type = ''Point Cloud'', name = ''bunny'',
                    lengthScaleOf = Fin 3, boundingBoxOf = exampleBox\<rparr>"

text \<open>One point cloud registered and selected; and a mesh of the same name beside it.\<close>

definition oneCloudState :: state where
  "oneCloudState =
     initialState\<lparr>structures := [(''Point Cloud'', [(''bunny'', exampleCloud)])],
                  lengthScale := Fin 3, boundingBox := exampleBox,
                  center := (Fin (1/2), Fin 1, Fin 1),
                  pickState := Selected 1 7 False\<rparr>"

definition cloudAndMeshState :: state where
  "cloudAndMeshState =
     oneCloudState\<lparr>structures := [(''Point Cloud'', [(''bunny'', exampleCloud)]),
                                   (''Surface Mesh'', [(''bunny'', exampleMesh)])]\<rparr>"

text \<open>A point cloud with a box of edge \<open>2 ^ 100\<close> that reports no length scale.\<close>

definition hugeEdge :: real where
  "hugeEdge = 2 ^ 100"

definition hugeCloud :: Structure where
  "hugeCloud = \<lparr>addr = 1, type = ''Point Cloud'', name = ''huge'',
                lengthScaleOf = Fin 0,
                boundingBoxOf = ((Fin 0, Fin 0, Fin 0), (Fin hugeEdge, Fin hugeEdge, Fin hugeEdge))\<rparr>"

definition hugeCloudState :: state where
  "hugeCloudState = initialState\<lparr>structures := [(''Point Cloud'', [(''huge'', hugeCloud)])]\<rparr>"

text \<open>A loop step in which the window is unchanged and the pointer is idle over the scene.\<close>

definition idleFrame :: FrameInput where
  "idleFrame =
     \<lparr>newBufferWidth = 1280, newBufferHeight = 720,
      newWindowWidth = 1280, newWindowHeight = 720,
      anyMouseDown = False, wantCaptureMouse = False,
      mouseWheelH = Fin 0, mouseWheel = Fin 0,
      mouseClicked0 = False, mouseDoubleClicked0 = False, mouseDragging0 = False,
      keyCtrl = False, keyShift = False,
      mouseDeltaX = Fin 0, mouseDeltaY = Fin 0,
      pickX = 640, pickY = 360,
      pickIndexAt = (\<lambda>x y. 0),
      screenshotButton = False, showPickBufferClicked = False\<rparr>"

section \<open>Properties\<close>

subsection \<open>What each operation leaves alone\<close>

lemma updateStructureExtents_fields [simp]:
  "structures (updateStructureExtents st) = structures st"
  "errors (updateStructureExtents st) = errors st"
  "deleted (updateStructureExtents st) = deleted st"
  "pickState (updateStructureExtents st) = pickState st"
  "redrawNextFrame (updateStructureExtents st) = redrawNextFrame st"
  "contextStack (updateStructureExtents st) = contextStack st"
  "nextAddr (updateStructureExtents st) = nextAddr st"
  "loopSteps (updateStructureExtents st) = loopSteps st"
  by (simp_all add: updateStructureExtents_def Let_def split: prod.splits)

lemma error_fields [simp]:
  "structures (error msg st) = structures st"
  "errors (error msg st) = errors st @ [msg]"
  "deleted (error msg st) = deleted st"
  "pickState (error msg st) = pickState st"
  "lengthScale (error msg st) = lengthScale st"
  "boundingBox (error msg st) = boundingBox st"
  "center (error msg st) = center st"
  "redrawNextFrame (error msg st) = redrawNextFrame st"
  "contextStack (error msg st) = contextStack st"
  "nextAddr (error msg st) = nextAddr st"
  "loopSteps (error msg st) = loopSteps st"
  by (simp_all add: error_def)

lemma requestRedraw_fields [simp]:
  "structures (requestRedraw st) = structures st"
  "errors (requestRedraw st) = errors st"
  "deleted (requestRedraw st) = deleted st"
  "pickState (requestRedraw st) = pickState st"
  "lengthScale (requestRedraw st) = lengthScale st"
  "boundingBox (requestRedraw st) = boundingBox st"
  "center (requestRedraw st) = center st"
  "redrawNextFrame (requestRedraw st) = True"
  "contextStack (requestRedraw st) = contextStack st"
  "nextAddr (requestRedraw st) = nextAddr st"
  "loopSteps (requestRedraw st) = loopSteps st"
  by (simp_all add: requestRedraw_def)

lemma clearPick_fields [simp]:
  "structures (clearPickIfStructureSelected s st) = structures st"
  "errors (clearPickIfStructureSelected s st) = errors st"
  "deleted (clearPickIfStructureSelected s st) = deleted st"
  "redrawNextFrame (clearPickIfStructureSelected s st) = redrawNextFrame st"
  "contextStack (clearPickIfStructureSelected s st) = contextStack st"
  "nextAddr (clearPickIfStructureSelected s st) = nextAddr st"
  "loopSteps (clearPickIfStructureSelected s st) = loopSteps st"
  by (simp_all add: clearPickIfStructureSelected_def resetPick_def split: PickState.splits)

lemma removeStructure_present:
  assumes "map_of (structures st) ty = Some sMap" and "map_of sMap nm = Some s"
  shows "structures (removeStructure ty nm e st) = map_modify ty (map_erase (name s)) (structures st)"
    and "errors (removeStructure ty nm e st) = errors st"
    and "deleted (removeStructure ty nm e st) = deleted st @ [addr s]"
    and "pickState (removeStructure ty nm e st) = pickState (clearPickIfStructureSelected s st)"
  using assms by (simp_all add: removeStructure_def Let_def)

subsection \<open>The registry invariant\<close>

text \<open>
  The empty registry satisfies \<open>registry_inv\<close>, every operation on the registry preserves
  it, and it implies \<open>wf_registry\<close>.
\<close>

lemma std_map_distinct: "std_map m \<Longrightarrow> distinct (map fst m)"
  unfolding std_map_def using strict_sorted_iff by blast

lemma registry_inv_wf: "registry_inv reg \<Longrightarrow> wf_registry reg"
  by (auto simp: registry_inv_def wf_registry_def std_map_distinct list_all_iff)

lemma set_map_set: "fst ` set (map_set k v m) = insert k (fst ` set m)"
proof (induction m)
  case Nil
  show ?case by simp
next
  case (Cons p m)
  obtain k' v' where p: "p = (k', v')" by (cases p)
  show ?case by (simp add: p Cons.IH insert_commute)
qed

lemma snd_map_set: "p \<in> set (map_set k v m) \<Longrightarrow> p = (k, v) \<or> p \<in> set m"
  by (induction m) (auto split: if_splits)

lemma std_map_set: "std_map m \<Longrightarrow> std_map (map_set k v m)"
proof (induction m)
  case Nil
  show ?case by (simp add: std_map_def)
next
  case (Cons p m)
  obtain k' v' where p: "p = (k', v')" by (cases p)
  from Cons.prems p have tl: "std_map m" and hd: "\<forall>x \<in> fst ` set m. k' < x"
    by (auto simp: std_map_def)
  show ?case
  proof (cases "k = k'")
    case True
    with Cons.prems p show ?thesis by (simp add: std_map_def)
  next
    case ne: False
    show ?thesis
    proof (cases "k < k'")
      case True
      with Cons.prems p ne show ?thesis by (auto simp: std_map_def)
    next
      case False
      with ne have "k' < k" by simp
      with hd have "\<forall>x \<in> fst ` set (map_set k v m). k' < x" by (simp add: set_map_set)
      with Cons.IH [OF tl] p ne False show ?thesis by (auto simp: std_map_def)
    qed
  qed
qed

lemma set_map_erase_subset: "set (map_erase k m) \<subseteq> set m"
  by (induction m) (auto split: if_splits)

lemma std_map_erase: "std_map m \<Longrightarrow> std_map (map_erase k m)"
proof (induction m)
  case Nil
  show ?case by (simp add: std_map_def)
next
  case (Cons p m)
  obtain k' v' where p: "p = (k', v')" by (cases p)
  from Cons.prems p have tl: "std_map m" and hd: "\<forall>x \<in> fst ` set m. k' < x"
    by (auto simp: std_map_def)
  from hd set_map_erase_subset [of k m] have "\<forall>x \<in> fst ` set (map_erase k m). k' < x" by auto
  with Cons.IH [OF tl] tl p show ?case by (auto simp: std_map_def)
qed

lemma map_fst_modify: "map fst (map_modify k f m) = map fst m"
  by (induction m) auto

lemma registry_inv_modify:
  assumes "registry_inv reg"
    and "\<And>m. std_map m \<Longrightarrow> list_all (\<lambda>(k, s). type s = ty \<and> name s = k) m
            \<Longrightarrow> std_map (f m) \<and> list_all (\<lambda>(k, s). type s = ty \<and> name s = k) (f m)"
  shows "registry_inv (map_modify ty f reg)"
proof -
  have "list_all (\<lambda>(t, m). std_map m \<and> list_all (\<lambda>(k, s). type s = t \<and> name s = k) m) reg
        \<Longrightarrow> list_all (\<lambda>(t, m). std_map m \<and> list_all (\<lambda>(k, s). type s = t \<and> name s = k) m)
              (map_modify ty f reg)"
    using assms(2) by (induction reg) auto
  with assms(1) show ?thesis by (simp add: registry_inv_def std_map_def map_fst_modify)
qed

lemma registry_inv_removeStructure:
  assumes "registry_inv (structures st)"
  shows "registry_inv (structures (removeStructure ty nm e st))"
proof (cases "map_of (structures st) ty")
  case None
  with assms show ?thesis by (simp add: removeStructure_def)
next
  case outer: (Some sMap)
  show ?thesis
  proof (cases "map_of sMap nm")
    case None
    with assms outer show ?thesis by (simp add: removeStructure_def)
  next
    case (Some s)
    have "registry_inv (map_modify ty (map_erase (name s)) (structures st))"
    proof (rule registry_inv_modify [OF assms])
      fix m :: "Structure strmap"
      assume "std_map m" and a: "list_all (\<lambda>(k, s). type s = ty \<and> name s = k) m"
      then have "std_map (map_erase (name s) m)" by (simp add: std_map_erase)
      moreover from a set_map_erase_subset [of "name s" m]
      have "list_all (\<lambda>(k, s). type s = ty \<and> name s = k) (map_erase (name s) m)"
        by (auto simp: list_all_iff)
      ultimately show "std_map (map_erase (name s) m)
          \<and> list_all (\<lambda>(k, s). type s = ty \<and> name s = k) (map_erase (name s) m)" by simp
    qed
    then show ?thesis using removeStructure_present(1) [OF outer Some] by simp
  qed
qed

lemma registry_inv_removeStructureByName:
  assumes "registry_inv (structures st)"
  shows "registry_inv (structures (removeStructureByName nm st))"
  using assms registry_inv_removeStructure
  by (auto simp: removeStructureByName_def split: sum.splits option.splits)

lemma registry_inv_removeNames:
  "registry_inv (structures st) \<Longrightarrow> registry_inv (structures (removeNames ty names st))"
  by (induction names arbitrary: st) (auto simp: registry_inv_removeStructure)

lemma registry_inv_removeEachType:
  "registry_inv (structures st) \<Longrightarrow> registry_inv (structures (removeEachType reg st))"
  by (induction reg arbitrary: st) (auto simp: registry_inv_removeNames)

lemma registry_inv_removeAllStructures:
  "registry_inv (structures st) \<Longrightarrow> registry_inv (structures (removeAllStructures st))"
  by (simp add: removeAllStructures_def resetPick_def registry_inv_removeEachType)

lemma registry_inv_add_type:
  assumes "registry_inv reg"
  shows "registry_inv (map_set ty [] reg)"
proof -
  from assms have "std_map (map_set ty [] reg)" by (simp add: registry_inv_def std_map_set)
  moreover have "list_all (\<lambda>(t, m). std_map m \<and> list_all (\<lambda>(k, s). type s = t \<and> name s = k) m)
                   (map_set ty [] reg)"
    using assms snd_map_set [of _ ty "[]" reg]
    by (fastforce simp: registry_inv_def list_all_iff std_map_def)
  ultimately show ?thesis by (simp add: registry_inv_def)
qed

lemma registry_inv_registerStructure:
  assumes "registry_inv (structures st)"
  shows "registry_inv (structures (snd (registerStructure s r st)))"
proof -
  define st1 where "st1 = (if map_of (structures st) (type s) = None
                 then st\<lparr>structures := map_set (type s) [] (structures st)\<rparr> else st)"
  have i1: "registry_inv (structures st1)"
    using assms by (simp add: st1_def registry_inv_add_type)
  define st2 where "st2 = (if map_of (map_at (structures st1) (type s)) (name s) \<noteq> None
                           then removeStructureByName (name s) st1 else st1)"
  have i2: "registry_inv (structures st2)"
    using i1 by (simp add: st2_def registry_inv_removeStructureByName)
  have i3: "registry_inv (map_modify (type s) (map_set (name s) s) (structures st2))"
  proof (rule registry_inv_modify [OF i2])
    fix m :: "Structure strmap"
    assume sm: "std_map m" and a: "list_all (\<lambda>(k, x). type x = type s \<and> name x = k) m"
    have "list_all (\<lambda>(k, x). type x = type s \<and> name x = k) (map_set (name s) s m)"
      using a snd_map_set [of _ "name s" s m] by (fastforce simp: list_all_iff)
    with sm show "std_map (map_set (name s) s m)
        \<and> list_all (\<lambda>(k, x). type x = type s \<and> name x = k) (map_set (name s) s m)"
      by (simp add: std_map_set)
  qed
  show ?thesis
  proof (cases "map_of (map_at (structures st1) (type s)) (name s) \<noteq> None \<and> \<not> r")
    case True
    then show ?thesis using i1
      by (simp add: registerStructure_def Let_def st1_def [symmetric])
  next
    case False
    then have "structures (snd (registerStructure s r st))
                 = map_modify (type s) (map_set (name s) s) (structures st2)"
      by (auto simp: registerStructure_def Let_def st1_def [symmetric] st2_def)
    with i3 show ?thesis by simp
  qed
qed

lemma registry_inv_initial: "registry_inv (structures initialState)"
  by (simp add: registry_inv_def std_map_def initialState_def)

subsection \<open>The context stack: popping the root\<close>

text \<open>
  C1 (as the code behaves): on a context stack holding exactly one entry, \<open>popContext\<close>
  reports the error and then pops that entry all the same, leaving the stack empty; the
  claimed no-op and the invariant of at least one entry do not hold.
\<close>

theorem popContext_root_pops:
  "popContext (st\<lparr>contextStack := [entry]\<rparr>)
     = Inr (st\<lparr>contextStack := [],
               errors := errors st @ [''Called popContext() too many times'']\<rparr>)"
  by (simp add: popContext_def error_def)

subsection \<open>Registration\<close>

text \<open>
  C3: when the registry holds an entry with the type and name of the structure being
  registered and \<open>replaceIfPresent\<close> is false, \<open>registerStructure\<close> returns false, the state
  changes only by the reported error, so the registry is as before and still holds the
  original under that type and name, and the rejected structure is neither stored nor
  deleted.
\<close>

theorem registerStructure_duplicate_rejected:
  assumes "map_of (structures st) (type s) = Some sMap"
    and "map_of sMap (name s) = Some original"
  shows "registerStructure s False st =
           (False, st\<lparr>errors := errors st @
              [''Attempted to register structure with name '' @ name s
               @ '', but a structure with that name already exists'']\<rparr>)
       \<and> structures (snd (registerStructure s False st)) = structures st
       \<and> map_of (map_at (structures (snd (registerStructure s False st))) (type s)) (name s)
           = Some original
       \<and> deleted (snd (registerStructure s False st)) = deleted st"
  using assms by (simp add: registerStructure_def map_at_def error_def)

theorem registerStructure_duplicate_rejected_witness:
  "map_of (structures oneCloudState) (type exampleCloud2) = Some [(''bunny'', exampleCloud)]
 \<and> map_of [(''bunny'', exampleCloud)] (name exampleCloud2) = Some exampleCloud
 \<and> fst (registerStructure exampleCloud2 False oneCloudState) = False
 \<and> structures (snd (registerStructure exampleCloud2 False oneCloudState))
      = [(''Point Cloud'', [(''bunny'', exampleCloud)])]"
proof -
  have h1: "map_of (structures oneCloudState) (type exampleCloud2) = Some [(''bunny'', exampleCloud)]"
    by (simp add: oneCloudState_def exampleCloud2_def)
  have h2: "map_of [(''bunny'', exampleCloud)] (name exampleCloud2) = Some exampleCloud"
    by (simp add: exampleCloud2_def)
  show ?thesis
    using h1 h2 registerStructure_duplicate_rejected [OF h1 h2]
    by (simp add: oneCloudState_def)
qed

text \<open>
  C2 (as the code behaves): with a point cloud and a mesh both named \<open>bunny\<close> registered and
  the point cloud selected, registering a new point cloud \<open>bunny\<close> with \<open>replaceIfPresent\<close>
  true returns true, but the old entry is not removed through \<open>removeStructure\<close>: the
  type-inferred removal finds two structures of that name and only reports the ambiguity.
  The old point cloud is overwritten in the map without being deleted, and the pick state
  keeps referencing it although it is no longer registered.
\<close>

theorem registerStructure_replace_ambiguous_name:
  "fst (registerStructure exampleCloud2 True cloudAndMeshState) = True
 \<and> structures (snd (registerStructure exampleCloud2 True cloudAndMeshState))
      = [(''Point Cloud'', [(''bunny'', exampleCloud2)]), (''Surface Mesh'', [(''bunny'', exampleMesh)])]
 \<and> errors (snd (registerStructure exampleCloud2 True cloudAndMeshState))
      = [ambiguousMessage ''Point Cloud'' ''Surface Mesh'']
 \<and> deleted (snd (registerStructure exampleCloud2 True cloudAndMeshState)) = []
 \<and> pickState (snd (registerStructure exampleCloud2 True cloudAndMeshState))
      = Selected (addr exampleCloud) 7 False
 \<and> \<not> pickValid (snd (registerStructure exampleCloud2 True cloudAndMeshState))"
  by (simp add: registerStructure_def map_at_def removeStructureByName_def pickValid_def
      allStructures_def cloudAndMeshState_def oneCloudState_def initialState_def
      exampleCloud_def exampleCloud2_def exampleMesh_def Let_def)

subsection \<open>Type-inferred removal\<close>

lemma matchesIn_Nil [simp]: "matchesIn nm ty [] = []"
  by (simp add: matchesIn_def)

lemma matchesIn_Cons [simp]:
  "matchesIn nm ty ((k, s) # m) = (if k = nm then (ty, s) # matchesIn nm ty m else matchesIn nm ty m)"
  by (simp add: matchesIn_def)

lemma matches_Nil [simp]: "matches nm [] = []"
  by (simp add: matches_def)

lemma matches_Cons [simp]: "matches nm ((ty, m) # reg) = matchesIn nm ty m @ matches nm reg"
  by (simp add: matches_def)

lemma scanCategory_Some:
  "scanCategory nm ty m (Some t) =
     (if matchesIn nm ty m = [] then Inr (Some t) else Inl (ambiguousMessage (type t) ty))"
  by (induction m) (auto split: if_splits)

lemma scanCategory_None:
  "scanCategory nm ty m None =
     (case matchesIn nm ty m of
        [] \<Rightarrow> Inr None
      | [(t1, s1)] \<Rightarrow> Inr (Some s1)
      | (t1, s1) # (t2, s2) # _ \<Rightarrow> Inl (ambiguousMessage (type s1) ty))"
  by (induction m) (auto simp: scanCategory_Some split: list.splits if_splits)

lemma matchesIn_fst: "(t, s) \<in> set (matchesIn nm ty m) \<Longrightarrow> t = ty"
  by (auto simp: matchesIn_def)

lemma scanRegistry_Some:
  "scanRegistry nm reg (Some t) =
     (case matches nm reg of
        [] \<Rightarrow> Inr (Some t)
      | (t2, s2) # _ \<Rightarrow> Inl (ambiguousMessage (type t) t2))"
proof (induction reg)
  case Nil
  show ?case by simp
next
  case (Cons c reg)
  obtain ty m where c: "c = (ty, m)" by (cases c)
  show ?case
  proof (cases "matchesIn nm ty m")
    case Nil
    then show ?thesis using Cons by (simp add: c scanCategory_Some)
  next
    case (Cons p ps)
    then have "fst p = ty" using matchesIn_fst [of "fst p" "snd p" nm ty m] by simp
    then show ?thesis using Cons by (cases p) (simp add: c scanCategory_Some)
  qed
qed

lemma scanRegistry_None:
  "scanRegistry nm reg None =
     (case matches nm reg of
        [] \<Rightarrow> Inr None
      | [(t1, s1)] \<Rightarrow> Inr (Some s1)
      | (t1, s1) # (t2, s2) # _ \<Rightarrow> Inl (ambiguousMessage (type s1) t2))"
proof (induction reg)
  case Nil
  show ?case by simp
next
  case (Cons c reg)
  obtain ty m where c: "c = (ty, m)" by (cases c)
  show ?case
  proof (cases "matchesIn nm ty m")
    case Nil
    then show ?thesis using Cons by (simp add: c scanCategory_None)
  next
    case outer: (Cons p ps)
    obtain t1 s1 where p: "p = (t1, s1)" by (cases p)
    show ?thesis
    proof (cases ps)
      case Nil
      then show ?thesis using outer p
        by (simp add: c scanCategory_None scanRegistry_Some split: list.splits)
    next
      case (Cons q qs)
      obtain t2 s2 where q: "q = (t2, s2)" by (cases q)
      have "t2 = ty" using matchesIn_fst [of t2 s2 nm ty m] outer Cons q by simp
      then show ?thesis using outer p Cons q
        by (simp add: c scanCategory_None)
    qed
  qed
qed


lemma matchesIn_set: "(t, s) \<in> set (matchesIn nm ty m) \<longleftrightarrow> t = ty \<and> (nm, s) \<in> set m"
  by (auto simp: matchesIn_def)

lemma matches_set: "(t, s) \<in> set (matches nm reg) \<longleftrightarrow> (\<exists>m. (t, m) \<in> set reg \<and> (nm, s) \<in> set m)"
  by (auto simp: matches_def matchesIn_set)

lemma wf_registry_match:
  assumes "wf_registry reg" and "(ty, s) \<in> set (matches nm reg)"
  shows "\<exists>m. map_of reg ty = Some m \<and> map_of m nm = Some s \<and> type s = ty \<and> name s = nm"
proof -
  from assms(2) obtain m where m: "(ty, m) \<in> set reg" "(nm, s) \<in> set m"
    by (auto simp: matches_set)
  from assms(1) m(1) have d: "distinct (map fst m)" and a: "list_all (\<lambda>(k, s). type s = ty \<and> name s = k) m"
    by (auto simp: wf_registry_def list_all_iff)
  from a m(2) have "type s = ty \<and> name s = nm" by (auto simp: list_all_iff)
  moreover from assms(1) m(1) have "map_of reg ty = Some m" by (simp add: wf_registry_def)
  moreover from d m(2) have "map_of m nm = Some s" by simp
  ultimately show ?thesis by blast
qed

text \<open>
  Where the name is registered under one type only, the replace path of \<open>registerStructure\<close>
  does remove and delete the old entry before it stores the new one.
\<close>

lemma registerStructure_replace_unique:
  assumes wf: "wf_registry (structures st)"
    and one: "matches (name s) (structures st) = [(type s, old)]"
  shows "fst (registerStructure s True st) = True"
    and "structures (snd (registerStructure s True st)) =
           map_modify (type s) (map_set (name s) s)
             (map_modify (type s) (map_erase (name s)) (structures st))"
    and "deleted (snd (registerStructure s True st)) = deleted st @ [addr old]"
    and "errors (snd (registerStructure s True st)) = errors st"
    and "redrawNextFrame (snd (registerStructure s True st))"
proof -
  from wf one obtain m where m: "map_of (structures st) (type s) = Some m"
      "map_of m (name s) = Some old" "type old = type s" "name old = name s"
    using wf_registry_match [of "structures st" "type s" old "name s"] by auto
  have r: "removeStructureByName (name s) st = requestRedraw (removeStructure (type s) (name s) True st)"
    using one m by (simp add: removeStructureByName_def scanRegistry_None)
  note p = removeStructure_present [OF m(1) m(2), of True]
  show "fst (registerStructure s True st) = True"
    using m by (simp add: registerStructure_def map_at_def Let_def)
  show "structures (snd (registerStructure s True st)) =
           map_modify (type s) (map_set (name s) s)
             (map_modify (type s) (map_erase (name s)) (structures st))"
    using m p by (simp add: registerStructure_def map_at_def Let_def r)
  show "deleted (snd (registerStructure s True st)) = deleted st @ [addr old]"
    using m p by (simp add: registerStructure_def map_at_def Let_def r)
  show "errors (snd (registerStructure s True st)) = errors st"
    using m p by (simp add: registerStructure_def map_at_def Let_def r)
  show "redrawNextFrame (snd (registerStructure s True st))"
    using m p by (simp add: registerStructure_def map_at_def Let_def r)
qed

lemma matchesIn_erase:
  "distinct (map fst m) \<Longrightarrow> matchesIn nm ty (map_erase nm m) = []"
proof (induction m)
  case Nil
  show ?case by simp
next
  case (Cons p m)
  obtain k s where p: "p = (k, s)" by (cases p)
  show ?case
  proof (cases "k = nm")
    case True
    with Cons.prems p have "nm \<notin> fst ` set m" by simp
    then have "matchesIn nm ty m = []" by (force simp: matchesIn_def filter_empty_conv)
    with True p show ?thesis by simp
  next
    case False
    with Cons p show ?thesis by simp
  qed
qed

lemma matches_not_key: "ty \<notin> fst ` set reg \<Longrightarrow> (ty, s) \<notin> set (matches nm reg)"
  by (force simp: matches_set)

lemma matches_modify_erase:
  assumes "wf_registry reg"
  shows "matches nm (map_modify ty (map_erase nm) reg) = filter (\<lambda>(t, s). t \<noteq> ty) (matches nm reg)"
  using assms
proof (induction reg)
  case Nil
  show ?case by simp
next
  case (Cons c reg)
  obtain t m where c: "c = (t, m)" by (cases c)
  from Cons.prems c have wf: "wf_registry reg" and d: "distinct (map fst m)" and nk: "t \<notin> fst ` set reg"
    by (auto simp: wf_registry_def)
  show ?case
  proof (cases "ty = t")
    case True
    have "filter (\<lambda>(t', s). t' \<noteq> t) (matchesIn nm t m) = []"
      by (auto simp: filter_empty_conv matchesIn_set)
    moreover have "filter (\<lambda>(t', s). t' \<noteq> t) (matches nm reg) = matches nm reg"
      using matches_not_key [OF nk] by (auto simp: filter_id_conv)
    ultimately show ?thesis using True c d by (simp add: matchesIn_erase)
  next
    case False
    have "filter (\<lambda>(t', s). t' \<noteq> ty) (matchesIn nm t m) = matchesIn nm t m"
      using False by (auto simp: filter_id_conv matchesIn_set)
    with False c Cons.IH [OF wf] show ?thesis by simp
  qed
qed

text \<open>
  C4: on a registry whose keys are unique and whose structures sit under their own type and
  name, the type-inferred \<open>removeStructure(name)\<close> changes the registry exactly when one
  structure of that name exists across all types, and then it erases that entry, deletes the
  structure and reports nothing. With no match it reports the not-found error; with more
  than one it reports the ambiguity error naming the types of the first two matches. In both
  error cases the registry, the deleted set and the global extents are as before.
\<close>

theorem removeStructureByName_outcome:
  assumes "wf_registry (structures st)"
  shows "let ms = matches nm (structures st); st' = removeStructureByName nm st in
           structures st' =
             (case ms of [(ty, s)] \<Rightarrow> map_modify ty (map_erase nm) (structures st)
              | _ \<Rightarrow> structures st)
         \<and> errors st' =
             (case ms of [] \<Rightarrow> errors st @ [''No structure named: '' @ nm @ '' to remove.'']
              | [m] \<Rightarrow> errors st
              | (t1, s1) # (t2, s2) # _ \<Rightarrow> errors st @ [ambiguousMessage t1 t2])
         \<and> deleted st' = (case ms of [(ty, s)] \<Rightarrow> deleted st @ [addr s] | _ \<Rightarrow> deleted st)
         \<and> matches nm (structures st') = (if length ms = 1 then [] else ms)
         \<and> (structures st' \<noteq> structures st) = (length ms = 1)
         \<and> (length ms = 1 \<or>
              lengthScale st' = lengthScale st \<and> boundingBox st' = boundingBox st
              \<and> center st' = center st)"
proof (cases "matches nm (structures st)")
  case Nil
  then show ?thesis
    by (simp add: Let_def removeStructureByName_def scanRegistry_None)
next
  case outer: (Cons p ps)
  obtain t1 s1 where p: "p = (t1, s1)" by (cases p)
  from assms outer p obtain m where m: "map_of (structures st) t1 = Some m" "map_of m nm = Some s1"
      "type s1 = t1" "name s1 = nm"
    using wf_registry_match [of "structures st" t1 s1 nm] by auto
  show ?thesis
  proof (cases ps)
    case Nil
    have r: "removeStructureByName nm st = requestRedraw (removeStructure t1 nm True st)"
      using outer p Nil m by (simp add: removeStructureByName_def scanRegistry_None)
    have s: "structures (removeStructure t1 nm True st) = map_modify t1 (map_erase nm) (structures st)"
      using removeStructure_present(1) [OF m(1) m(2)] m(4) by simp
    have e: "matches nm (map_modify t1 (map_erase nm) (structures st)) = []"
      using matches_modify_erase [OF assms, of nm t1] outer p Nil by simp
    have ne: "map_modify t1 (map_erase nm) (structures st) \<noteq> structures st"
      using e outer by auto
    show ?thesis
      using outer p Nil r s e ne removeStructure_present(2,3) [OF m(1) m(2)]
      by (simp add: Let_def)
  next
    case (Cons q qs)
    obtain t2 s2 where q: "q = (t2, s2)" by (cases q)
    show ?thesis using outer p Cons q m
      by (simp add: Let_def removeStructureByName_def scanRegistry_None)
  qed
qed


theorem removeStructureByName_outcome_witness:
  "wf_registry (structures oneCloudState) \<and> wf_registry (structures cloudAndMeshState)
 \<and> structures (removeStructureByName ''bunny'' oneCloudState) = [(''Point Cloud'', [])]
 \<and> errors (removeStructureByName ''bunny'' oneCloudState) = []
 \<and> deleted (removeStructureByName ''bunny'' oneCloudState) = [1]
 \<and> structures (removeStructureByName ''bunny'' cloudAndMeshState) = structures cloudAndMeshState
 \<and> errors (removeStructureByName ''bunny'' cloudAndMeshState)
      = [ambiguousMessage ''Point Cloud'' ''Surface Mesh'']
 \<and> structures (removeStructureByName ''teapot'' oneCloudState) = structures oneCloudState
 \<and> errors (removeStructureByName ''teapot'' oneCloudState)
      = [''No structure named: teapot to remove.'']"
proof -
  have w1: "wf_registry (structures oneCloudState)"
    by (simp add: wf_registry_def oneCloudState_def exampleCloud_def)
  have w2: "wf_registry (structures cloudAndMeshState)"
    by (simp add: wf_registry_def cloudAndMeshState_def exampleCloud_def exampleMesh_def)
  have m1: "matches ''bunny'' (structures oneCloudState) = [(''Point Cloud'', exampleCloud)]"
    by (simp add: oneCloudState_def)
  have m2: "matches ''bunny'' (structures cloudAndMeshState)
              = [(''Point Cloud'', exampleCloud), (''Surface Mesh'', exampleMesh)]"
    by (simp add: cloudAndMeshState_def)
  have m3: "matches ''teapot'' (structures oneCloudState) = []"
    by (simp add: oneCloudState_def)
  show ?thesis
    using w1 w2
      removeStructureByName_outcome [OF w1, of "''bunny''"]
      removeStructureByName_outcome [OF w2, of "''bunny''"]
      removeStructureByName_outcome [OF w1, of "''teapot''"]
    by (simp add: Let_def m1 m2 m3)
       (simp add: oneCloudState_def cloudAndMeshState_def initialState_def exampleCloud_def)
qed

subsection \<open>Rounding to single precision\<close>

lemma pow2_powr: "pow2 e = 2 powr (of_int e)"
  by (simp add: pow2_def powr_real_of_int inverse_eq_divide)

lemma pow2_pos [simp]: "0 < pow2 e"
  by (simp add: pow2_powr)

lemma floor_log2:
  assumes "pow2 e \<le> x" and "x < pow2 (e + 1)"
  shows "\<lfloor>log 2 x\<rfloor> = e"
proof -
  have pos: "0 < x" using assms(1) pow2_pos [of e] by linarith
  have "of_int e \<le> log 2 x"
    using assms(1) pos by (simp add: le_log_iff pow2_powr)
  moreover have "log 2 x < of_int e + 1"
    using assms(2) pos by (simp add: log_less_iff pow2_powr)
  ultimately show ?thesis by (simp add: floor_unique)
qed

lemma rne_near:
  assumes "\<bar>x - of_int m\<bar> < 1/2"
  shows "rne x = m"
proof -
  have "\<lfloor>x\<rfloor> = m \<or> \<lfloor>x\<rfloor> = m - 1" using assms by linarith
  then show ?thesis
  proof
    assume f: "\<lfloor>x\<rfloor> = m"
    then have "x - of_int m < 1/2" using assms by linarith
    with f show ?thesis by (simp add: rne_def Let_def)
  next
    assume f: "\<lfloor>x\<rfloor> = m - 1"
    have "- (1/2) < x - of_int m" using assms by linarith
    then have "1/2 < x - of_int (m - 1)" by simp
    with f show ?thesis by (simp add: rne_def Let_def)
  qed
qed

lemma round32_binade:
  assumes "pow2 e \<le> \<bar>x\<bar>" and "\<bar>x\<bar> < pow2 (e + 1)" and "- 126 \<le> e"
    and "\<bar>x / pow2 (e - 23) - of_int m\<bar> < 1/2"
  shows "round32 x =
           (if pow2 128 \<le> \<bar>of_int m * pow2 (e - 23)\<bar> then (if 0 < x then PInf else NInf)
            else Fin (of_int m * pow2 (e - 23)))"
proof -
  have nz: "x \<noteq> 0"
  proof
    assume "x = 0"
    with assms(1) have "pow2 e \<le> 0" by simp
    with pow2_pos [of e] show False by linarith
  qed
  have fl: "\<lfloor>log 2 \<bar>x\<bar>\<rfloor> = e" using floor_log2 [OF assms(1,2)] .
  have mx: "max e (- 126) = e" using assms(3) by simp
  have r: "rne (x / pow2 (e - 23)) = m" using rne_near [OF assms(4)] .
  show ?thesis
    using nz by (simp add: round32_def round_binary_def Let_def fl mx r)
qed

lemma round32_0 [simp]: "round32 0 = Fin 0"
  by (simp add: round32_def round_binary_def)

lemma round32_2: "round32 2 = Fin 2"
  using round32_binade [of 1 2 8388608] by (simp add: pow2_def)

lemma round32_4: "round32 4 = Fin 4"
  using round32_binade [of 2 4 8388608] by (simp add: pow2_def)

lemma round32_8: "round32 8 = Fin 8"
  using round32_binade [of 3 8 8388608] by (simp add: pow2_def)

lemma round32_12: "round32 12 = Fin 12"
  using round32_binade [of 3 12 12582912] by (simp add: pow2_def)

lemma sqrt12_bounds:
  "14529495 / 4194304 - 1 / 8388608 < sqrt 12" "sqrt 12 < 14529495 / 4194304 + 1 / 8388608"
proof -
  show "14529495 / 4194304 - 1 / 8388608 < sqrt 12"
    by (rule real_less_rsqrt) (simp add: power2_eq_square)
  show "sqrt 12 < 14529495 / 4194304 + 1 / 8388608"
    by (rule real_less_lsqrt) (simp_all add: power2_eq_square)
qed

lemma round32_sqrt12: "round32 (sqrt 12) = Fin (14529495 / 4194304)"
proof -
  have lo: "2 \<le> sqrt 12" by (rule real_le_rsqrt) simp
  have hi: "sqrt 12 < 4" by (rule real_less_lsqrt) simp_all
  have q: "sqrt 12 / pow2 (1 - 23) = sqrt 12 * 4194304" by (simp add: pow2_def)
  have lin: "\<And>s::real. 14529495 / 4194304 - 1 / 8388608 < s
      \<Longrightarrow> s < 14529495 / 4194304 + 1 / 8388608 \<Longrightarrow> \<bar>s * 4194304 - 14529495\<bar> < 1/2"
    by linarith
  have near: "\<bar>sqrt 12 / pow2 (1 - 23) - of_int 14529495\<bar> < 1/2"
    unfolding q using lin [OF sqrt12_bounds] by simp
  show ?thesis
    using round32_binade [of 1 "sqrt 12" 14529495, OF _ _ _ near] lo hi
    by (simp add: pow2_def)
qed

lemma sqrt_12: "sqrt 12 = 2 * sqrt 3"
proof -
  have "sqrt 12 = sqrt (4 * 3)" by simp
  also have "\<dots> = sqrt 4 * sqrt 3" by (rule real_sqrt_mult)
  also have "sqrt 4 = 2" using real_sqrt_abs [of 2] by simp
  finally show ?thesis by simp
qed

lemma unit_diagonal:
  "glm_length (vsub (Fin 1, Fin 1, Fin 1) (Fin (- 1), Fin (- 1), Fin (- 1)))
     = Fin (14529495 / 4194304)"
  by (simp add: fsub_def round32_2 round32_4 round32_8 round32_12 round32_sqrt12)

lemma unit_center:
  "vscale (Fin (1/2)) (vadd (Fin (- 1), Fin (- 1), Fin (- 1)) (Fin 1, Fin 1, Fin 1))
     = (Fin 0, Fin 0, Fin 0)"
  by simp

subsection \<open>Extents\<close>

lemma extentsOfCategory_fold:
  "extentsOfCategory m (ls, lo, hi) =
     (foldl std_max ls (map (lengthScaleOf \<circ> snd) m),
      foldl componentwiseMin lo (map (\<lambda>p. fst (boundingBoxOf (snd p))) m),
      foldl componentwiseMax hi (map (\<lambda>p. snd (boundingBoxOf (snd p))) m))"
proof (induction m arbitrary: ls lo hi)
  case Nil
  show ?case by simp
next
  case (Cons p m)
  obtain k x where p: "p = (k, x)" by (cases p)
  show ?case by (simp add: p Cons.IH)
qed

lemma extentsOfRegistry_fold:
  "extentsOfRegistry reg (ls, lo, hi) =
     (foldl std_max ls (map lengthScaleOf (allStructures reg)),
      foldl componentwiseMin lo (map (\<lambda>s. fst (boundingBoxOf s)) (allStructures reg)),
      foldl componentwiseMax hi (map (\<lambda>s. snd (boundingBoxOf s)) (allStructures reg)))"
proof (induction reg arbitrary: ls lo hi)
  case Nil
  show ?case by (simp add: allStructures_def)
next
  case (Cons c reg)
  obtain ty m where c: "c = (ty, m)" by (cases c)
  show ?case
    by (simp add: c extentsOfCategory_fold Cons.IH allStructures_def comp_def)
qed

lemma isFinite_cases:
  assumes "isFinite v"
  obtains a b c where "v = (Fin a, Fin b, Fin c)"
proof -
  obtain x y z where v: "v = (x, y, z)" by (cases v)
  with assms have "isfinite x" "isfinite y" "isfinite z" by simp_all
  then obtain a b c where "x = Fin a" "y = Fin b" "z = Fin c"
    by (cases x; cases y; cases z) simp_all
  with v that show thesis by simp
qed

lemma updateStructureExtents_unfold:
  "updateStructureExtents st =
     (let ls = spec_foldedLengthScale (structures st);
          lo = spec_foldedMin (structures st);
          hi = spec_foldedMax (structures st);
          nonFinite = (\<not> isFinite lo \<or> \<not> isFinite hi);
          minBbox = (if nonFinite then unitBoxMin else lo);
          maxBbox = (if nonFinite then unitBoxMax else hi)
      in st\<lparr>lengthScale := (if ls = Fin 0 then glm_length (vsub maxBbox minBbox) else ls),
            boundingBox := (minBbox, maxBbox),
            center := vscale (Fin (1/2)) (vadd minBbox maxBbox)\<rparr>)"
  by (simp add: updateStructureExtents_def extentsOfRegistry_fold spec_foldedLengthScale_def
      spec_foldedMin_def spec_foldedMax_def unitBoxMin_def unitBoxMax_def Let_def)

lemma vsub_Fin:
  "vsub (Fin b1, Fin b2, Fin b3) (Fin a1, Fin a2, Fin a3)
     = (round32 (b1 - a1), round32 (b2 - a2), round32 (b3 - a3))"
  by (simp add: fsub_def)

lemma vadd_Fin:
  "vadd (Fin a1, Fin a2, Fin a3) (Fin b1, Fin b2, Fin b3)
     = (round32 (a1 + b1), round32 (a2 + b2), round32 (a3 + b3))"
  by simp

lemma empty_extents:
  assumes "allStructures (structures st) = []"
  shows "lengthScale (updateStructureExtents st) = Fin (14529495 / 4194304)"
    and "boundingBox (updateStructureExtents st) = (unitBoxMin, unitBoxMax)"
    and "center (updateStructureExtents st) = (Fin 0, Fin 0, Fin 0)"
  using assms unit_diagonal unit_center
  by (simp_all add: updateStructureExtents_unfold Let_def spec_foldedLengthScale_def
      spec_foldedMin_def spec_foldedMax_def unitBoxMin_def unitBoxMax_def
      del: glm_length.simps vsub.simps vscale.simps vadd.simps)

lemma nearest_float_close: "\<bar>14529495 / 4194304 - 2 * sqrt 3\<bar> < 1 / 2 ^ 23"
proof -
  have lin: "\<And>s::real. 14529495 / 4194304 - 1 / 8388608 < s
      \<Longrightarrow> s < 14529495 / 4194304 + 1 / 8388608 \<Longrightarrow> \<bar>14529495 / 4194304 - s\<bar> < 1 / 8388608"
    by linarith
  show ?thesis using lin [OF sqrt12_bounds] by (simp add: sqrt_12)
qed

lemma exact_value_not_float: "(14529495 / 4194304 :: real) \<noteq> 2 * sqrt 3"
proof
  assume a: "(14529495 / 4194304 :: real) = 2 * sqrt 3"
  have "(2 * sqrt 3)\<^sup>2 = (12 :: real)" by (simp add: power_mult_distrib)
  with a have "(14529495 / 4194304 :: real)\<^sup>2 = 12" by metis
  then show False by (simp add: power2_eq_square)
qed

text \<open>
  C5, as stated, fails: on the empty registry the length scale is not \<open>2 * sqrt 3\<close>. The
  diagonal of the unit box is computed in single precision, and \<open>2 * sqrt 3\<close> is not a
  \<open>float\<close>.
\<close>

theorem updateStructureExtents_exact_counterexample:
  "lengthScale (updateStructureExtents initialState) \<noteq> Fin (2 * sqrt 3)"
proof -
  have "allStructures (structures initialState) = []"
    by (simp add: allStructures_def initialState_def)
  then have "lengthScale (updateStructureExtents initialState) = Fin (14529495 / 4194304)"
    by (rule empty_extents(1))
  then show ?thesis using exact_value_not_float by simp
qed

text \<open>
  C5, amended: \<open>updateStructureExtents\<close> computes the folds of the specification. The
  final box is the folded box when both corners are finite and the unit box otherwise, so its
  corners are finite. The final length scale is the folded one unless that is exactly zero,
  when it is the Euclidean length of the diagonal of the final box as \<open>glm::length\<close>
  computes it in single precision, every operation rounded to \<open>float\<close>; the center is
  \<open>0.5f * (min + max)\<close> of the final box, likewise in single precision. Without any
  structure the result is the unit box, the origin as center and the length scale
  \<open>14529495 / 4194304\<close>, the \<open>float\<close> nearest to \<open>2 * sqrt 3\<close>, less than \<open>1 / 2 ^ 23\<close>
  away from it.
\<close>

theorem updateStructureExtents_single_precision:
  "let reg = structures st;
       ls = spec_foldedLengthScale reg; lo = spec_foldedMin reg; hi = spec_foldedMax reg;
       st' = updateStructureExtents st
   in (\<exists>a1 a2 a3 b1 b2 b3.
         boundingBox st' = ((Fin a1, Fin a2, Fin a3), (Fin b1, Fin b2, Fin b3))
       \<and> boundingBox st' = (if isFinite lo \<and> isFinite hi then (lo, hi) else (unitBoxMin, unitBoxMax))
       \<and> lengthScale st' =
           (if ls = Fin 0
            then glm_length (round32 (b1 - a1), round32 (b2 - a2), round32 (b3 - a3))
            else ls)
       \<and> center st' =
           vscale (Fin (1/2)) (round32 (a1 + b1), round32 (a2 + b2), round32 (a3 + b3)))
    \<and> (allStructures reg = [] \<longrightarrow>
          lengthScale st' = Fin (14529495 / 4194304)
          \<and> \<bar>14529495 / 4194304 - 2 * sqrt 3\<bar> < 1 / 2 ^ 23
          \<and> boundingBox st' = (unitBoxMin, unitBoxMax)
          \<and> center st' = (Fin 0, Fin 0, Fin 0))"
proof -
  let ?reg = "structures st"
  let ?st' = "updateStructureExtents st"
  have part1: "\<exists>a1 a2 a3 b1 b2 b3.
         boundingBox ?st' = ((Fin a1, Fin a2, Fin a3), (Fin b1, Fin b2, Fin b3))
       \<and> boundingBox ?st' = (if isFinite (spec_foldedMin ?reg) \<and> isFinite (spec_foldedMax ?reg)
                              then (spec_foldedMin ?reg, spec_foldedMax ?reg)
                              else (unitBoxMin, unitBoxMax))
       \<and> lengthScale ?st' =
           (if spec_foldedLengthScale ?reg = Fin 0
            then glm_length (round32 (b1 - a1), round32 (b2 - a2), round32 (b3 - a3))
            else spec_foldedLengthScale ?reg)
       \<and> center ?st' =
           vscale (Fin (1/2)) (round32 (a1 + b1), round32 (a2 + b2), round32 (a3 + b3))"
  proof (cases "isFinite (spec_foldedMin ?reg) \<and> isFinite (spec_foldedMax ?reg)")
    case True
    then obtain a1 a2 a3 b1 b2 b3 where
      lo: "spec_foldedMin ?reg = (Fin a1, Fin a2, Fin a3)"
      and hi: "spec_foldedMax ?reg = (Fin b1, Fin b2, Fin b3)"
      by (metis isFinite_cases)
    show ?thesis
      apply (rule exI [of _ a1], rule exI [of _ a2], rule exI [of _ a3])
      apply (rule exI [of _ b1], rule exI [of _ b2], rule exI [of _ b3])
      by (simp add: updateStructureExtents_unfold Let_def lo hi vsub_Fin vadd_Fin
          del: glm_length.simps vsub.simps vscale.simps vadd.simps)
  next
    case False
    show ?thesis
      apply (rule exI [of _ "-1"], rule exI [of _ "-1"], rule exI [of _ "-1"])
      apply (rule exI [of _ 1], rule exI [of _ 1], rule exI [of _ 1])
      using False
      by (auto simp add: updateStructureExtents_unfold Let_def unitBoxMin_def unitBoxMax_def
          vsub_Fin vadd_Fin
          simp del: glm_length.simps vsub.simps vscale.simps vadd.simps)
  qed
  have part2: "allStructures ?reg = [] \<longrightarrow>
          lengthScale ?st' = Fin (14529495 / 4194304)
          \<and> \<bar>14529495 / 4194304 - 2 * sqrt 3\<bar> < 1 / 2 ^ 23
          \<and> boundingBox ?st' = (unitBoxMin, unitBoxMax)
          \<and> center ?st' = (Fin 0, Fin 0, Fin 0)"
    using empty_extents [of st] nearest_float_close by blast
  show ?thesis using part1 part2 by (simp add: Let_def)
qed

theorem updateStructureExtents_single_precision_witness:
  "allStructures (structures initialState) = []
 \<and> lengthScale (updateStructureExtents initialState) = Fin (14529495 / 4194304)
 \<and> boundingBox (updateStructureExtents initialState)
      = ((Fin (- 1), Fin (- 1), Fin (- 1)), (Fin 1, Fin 1, Fin 1))
 \<and> center (updateStructureExtents initialState) = (Fin 0, Fin 0, Fin 0)"
proof -
  have e: "allStructures (structures initialState) = []"
    by (simp add: allStructures_def initialState_def)
  show ?thesis
    using e updateStructureExtents_single_precision [of initialState]
    by (simp add: Let_def unitBoxMin_def unitBoxMax_def)
qed

text \<open>
  Rounding can also overflow: a finite box whose edge is \<open>2 ^ 100\<close>, with no length scale
  reported, gets the length scale \<open>+inf\<close>.
\<close>

lemma round32_hugeEdge: "round32 hugeEdge = Fin hugeEdge"
  using round32_binade [of 100 "2 ^ 100" 8388608] by (simp add: pow2_def hugeEdge_def)

lemma round32_hugeEdge_square: "round32 (hugeEdge * hugeEdge) = PInf"
  using round32_binade [of 200 "2 ^ 200" 8388608] by (simp add: pow2_def hugeEdge_def)

lemma hugeEdge_pos: "0 < hugeEdge"
  by (simp add: hugeEdge_def)

lemma huge_box_overflows:
  "boundingBox (updateStructureExtents hugeCloudState)
     = ((Fin 0, Fin 0, Fin 0), (Fin hugeEdge, Fin hugeEdge, Fin hugeEdge))
 \<and> lengthScale (updateStructureExtents hugeCloudState) = PInf"
proof -
  have f: "spec_foldedLengthScale (structures hugeCloudState) = Fin 0"
    "spec_foldedMin (structures hugeCloudState) = (Fin 0, Fin 0, Fin 0)"
    "spec_foldedMax (structures hugeCloudState) = (Fin hugeEdge, Fin hugeEdge, Fin hugeEdge)"
    by (simp_all add: spec_foldedLengthScale_def spec_foldedMin_def spec_foldedMax_def
        allStructures_def hugeCloudState_def hugeCloud_def std_max_def std_min_def)
  have d: "glm_length (vsub (Fin hugeEdge, Fin hugeEdge, Fin hugeEdge) (Fin 0, Fin 0, Fin 0)) = PInf"
    by (simp add: fsub_def round32_hugeEdge round32_hugeEdge_square)
  show ?thesis
    by (simp add: updateStructureExtents_unfold Let_def f d
        del: glm_length.simps vsub.simps vscale.simps vadd.simps)
qed

subsection \<open>The typed registration wrappers\<close>

text \<open>
  C10: in \<open>registerPointCloud\<close>, \<open>registerSurfaceMesh\<close>, \<open>registerCameraView\<close> and
  \<open>registerRaySet\<close> the argument \<open>replaceIfPresent\<close> has no effect. When a structure of the
  same type and name is registered, the call, also with \<open>replaceIfPresent\<close> true, leaves the
  registry as it was, reports the duplicate and deletes the structure it has just
  constructed.
\<close>

theorem typed_wrappers_ignore_replaceIfPresent:
  "registerPointCloud ty nm g True st = registerPointCloud ty nm g False st
 \<and> registerSurfaceMesh ty nm g True st = registerSurfaceMesh ty nm g False st
 \<and> registerCameraView ty nm g True st = registerCameraView ty nm g False st
 \<and> registerRaySet ty nm g True st = registerRaySet ty nm g False st
 \<and> (map_of (structures st) ty = Some sMap \<and> map_of sMap nm = Some original \<longrightarrow>
      (let rejected = st\<lparr>nextAddr := Suc (nextAddr st),
                         errors := errors st @
                           [''Attempted to register structure with name '' @ nm
                            @ '', but a structure with that name already exists''],
                         deleted := deleted st @ [nextAddr st]\<rparr>
       in registerPointCloud ty nm g True st = rejected
        \<and> registerSurfaceMesh ty nm g True st = rejected
        \<and> registerCameraView ty nm g True st = rejected
        \<and> registerRaySet ty nm g True st = rejected
        \<and> structures rejected = structures st))"
  by (simp add: registerPointCloud_def registerSurfaceMesh_def registerCameraView_def
      registerRaySet_def newStructure_def registerStructure_def
      registerStructure_default_replaceIfPresent_def map_at_def error_def Let_def)

theorem typed_wrappers_ignore_replaceIfPresent_witness:
  "map_of (structures oneCloudState) ''Point Cloud'' = Some [(''bunny'', exampleCloud)]
 \<and> map_of [(''bunny'', exampleCloud)] ''bunny'' = Some exampleCloud
 \<and> structures (registerPointCloud ''Point Cloud'' ''bunny'' (Fin 1, exampleBox) True oneCloudState)
      = [(''Point Cloud'', [(''bunny'', exampleCloud)])]
 \<and> deleted (registerPointCloud ''Point Cloud'' ''bunny'' (Fin 1, exampleBox) True oneCloudState) = [4]"
proof -
  have h: "map_of (structures oneCloudState) ''Point Cloud'' = Some [(''bunny'', exampleCloud)]
           \<and> map_of [(''bunny'', exampleCloud)] ''bunny'' = Some exampleCloud"
    by (simp add: oneCloudState_def)
  note t = typed_wrappers_ignore_replaceIfPresent
      [of "''Point Cloud''" "''bunny''" "(Fin 1, exampleBox)" oneCloudState
          "[(''bunny'', exampleCloud)]" exampleCloud]
  note i = conjunct2 [OF conjunct2 [OF conjunct2 [OF conjunct2 [OF t]]]]
  have r: "registerPointCloud ''Point Cloud'' ''bunny'' (Fin 1, exampleBox) True oneCloudState
             = oneCloudState\<lparr>nextAddr := Suc (nextAddr oneCloudState),
                 errors := errors oneCloudState @
                   [''Attempted to register structure with name '' @ ''bunny''
                    @ '', but a structure with that name already exists''],
                 deleted := deleted oneCloudState @ [nextAddr oneCloudState]\<rparr>"
    using mp [OF i h] by (simp add: Let_def)
  show ?thesis
    using h by (simp add: r) (simp add: oneCloudState_def initialState_def)
qed


subsection \<open>Removal and the pick state\<close>

lemma allStructures_set:
  "x \<in> set (allStructures reg) \<longleftrightarrow> (\<exists>t m k. (t, m) \<in> set reg \<and> (k, x) \<in> set m)"
  by (force simp: allStructures_def)

lemma set_map_erase:
  "distinct (map fst m) \<Longrightarrow> set (map_erase k m) = {p \<in> set m. fst p \<noteq> k}"
  by (induction m) (auto simp: rev_image_eqI split: if_splits)

lemma in_map_modify:
  "distinct (map fst reg) \<Longrightarrow> (t, m) \<in> set reg \<Longrightarrow>
     (t, if t = ty then f m else m) \<in> set (map_modify ty f reg)"
  by (induction reg) (auto simp: rev_image_eqI)

lemma survives_erase:
  assumes wf: "wf_registry reg" and tm: "(t, m) \<in> set reg" and kx: "(k, x) \<in> set m"
    and ne: "(t, k) \<noteq> (ty, nm)"
  shows "x \<in> set (allStructures (map_modify ty (map_erase nm) reg))"
proof -
  from wf have d: "distinct (map fst reg)" by (simp add: wf_registry_def)
  from wf tm have dm: "distinct (map fst m)" by (auto simp: wf_registry_def list_all_iff)
  let ?m' = "if t = ty then map_erase nm m else m"
  have "(t, ?m') \<in> set (map_modify ty (map_erase nm) reg)"
    using in_map_modify [OF d tm] .
  moreover have "(k, x) \<in> set ?m'"
    using kx ne dm by (auto simp: set_map_erase)
  ultimately show ?thesis unfolding allStructures_set by blast
qed

lemma pickValid_removeStructure:
  assumes wf: "wf_registry (structures st)" and pv: "pickValid st"
  shows "pickValid (removeStructure ty nm e st)"
proof (cases "map_of (structures st) ty")
  case None
  then show ?thesis using pv
    by (simp add: removeStructure_def pickValid_def split: PickState.splits)
next
  case outer: (Some sMap)
  show ?thesis
  proof (cases "map_of sMap nm")
    case None
    then show ?thesis using pv outer
      by (simp add: removeStructure_def pickValid_def split: PickState.splits)
  next
    case (Some s)
    from wf have d: "distinct (map fst (structures st))" by (simp add: wf_registry_def)
    from outer have in_reg: "(ty, sMap) \<in> set (structures st)" by (rule map_of_SomeD)
    from Some have in_m: "(nm, s) \<in> set sMap" by (rule map_of_SomeD)
    from wf in_reg in_m have nm: "name s = nm" by (auto simp: wf_registry_def list_all_iff)
    from wf in_reg have dm: "distinct (map fst sMap)" by (auto simp: wf_registry_def list_all_iff)
    note rs = removeStructure_present [OF outer Some, of e]
    show ?thesis
    proof (cases "pickState st")
      case NoSelection
      then show ?thesis using rs by (simp add: pickValid_def clearPickIfStructureSelected_def)
    next
      case (Selected a localInd dbl)
      show ?thesis
      proof (cases "a = addr s")
        case True
        then show ?thesis using rs Selected
          by (simp add: pickValid_def clearPickIfStructureSelected_def resetPick_def)
      next
        case False
        from pv Selected obtain x where x: "x \<in> set (allStructures (structures st))" "addr x = a"
          by (auto simp: pickValid_def)
        then obtain t m k where tm: "(t, m) \<in> set (structures st)" and kx: "(k, x) \<in> set m"
          unfolding allStructures_set by blast
        have "(t, k) \<noteq> (ty, nm)"
        proof
          assume eq: "(t, k) = (ty, nm)"
          then have "map_of (structures st) ty = Some m" using d tm by simp
          with outer have "m = sMap" by simp
          then have "map_of sMap nm = Some x" using dm kx eq by simp
          with Some have "x = s" by simp
          with x(2) False show False by simp
        qed
        then have "x \<in> set (allStructures (map_modify ty (map_erase nm) (structures st)))"
          using survives_erase [OF wf tm kx] by simp
        then show ?thesis using rs Selected False x(2) nm
          by (auto simp: pickValid_def clearPickIfStructureSelected_def)
      qed
    qed
  qed
qed

text \<open>
  C8: when the pick state is \<open>Selected\<close> with a structure that is registered under a type
  and name, removing that structure with \<open>removeStructure(type, name)\<close> leaves the pick
  state \<open>NoSelection\<close>, and so does \<open>removeAllStructures\<close> in every state. On a
  well-formed registry, a pick state that references only registered structures still does
  so after either call.
\<close>

theorem removing_selected_resets_pick:
  "(map_of (structures st) ty = Some sMap \<and> map_of sMap nm = Some s
      \<and> pickState st = Selected (addr s) localInd dbl
    \<longrightarrow> pickState (removeStructure ty nm e st) = NoSelection)
 \<and> pickState (removeAllStructures st) = NoSelection
 \<and> (wf_registry (structures st) \<and> pickValid st \<longrightarrow> pickValid (removeStructure ty nm e st))
 \<and> pickValid (removeAllStructures st)"
proof -
  have "pickState (removeAllStructures st) = NoSelection"
    by (simp add: removeAllStructures_def resetPick_def)
  moreover from this have "pickValid (removeAllStructures st)" by (simp add: pickValid_def)
  moreover have "map_of (structures st) ty = Some sMap \<and> map_of sMap nm = Some s
      \<and> pickState st = Selected (addr s) localInd dbl
    \<longrightarrow> pickState (removeStructure ty nm e st) = NoSelection"
    by (auto simp: removeStructure_present(4) clearPickIfStructureSelected_def resetPick_def)
  ultimately show ?thesis using pickValid_removeStructure by blast
qed

theorem removing_selected_resets_pick_witness:
  "map_of (structures oneCloudState) ''Point Cloud'' = Some [(''bunny'', exampleCloud)]
 \<and> map_of [(''bunny'', exampleCloud)] ''bunny'' = Some exampleCloud
 \<and> pickState oneCloudState = Selected (addr exampleCloud) 7 False
 \<and> wf_registry (structures oneCloudState) \<and> pickValid oneCloudState
 \<and> pickState (removeStructure ''Point Cloud'' ''bunny'' True oneCloudState) = NoSelection
 \<and> pickValid (removeStructure ''Point Cloud'' ''bunny'' True oneCloudState)"
proof -
  have h: "map_of (structures oneCloudState) ''Point Cloud'' = Some [(''bunny'', exampleCloud)]
         \<and> map_of [(''bunny'', exampleCloud)] ''bunny'' = Some exampleCloud
         \<and> pickState oneCloudState = Selected (addr exampleCloud) 7 False"
    by (simp add: oneCloudState_def exampleCloud_def)
  have w: "wf_registry (structures oneCloudState) \<and> pickValid oneCloudState"
    by (simp add: wf_registry_def pickValid_def allStructures_def oneCloudState_def exampleCloud_def)
  note t = removing_selected_resets_pick
    [of oneCloudState "''Point Cloud''" "[(''bunny'', exampleCloud)]" "''bunny''" exampleCloud 7 False True]
  show ?thesis using h w t by blast
qed


subsection \<open>Picking\<close>

lemma resetPick_fields [simp]:
  "contextStack (resetPick st) = contextStack st"
  "loopSteps (resetPick st) = loopSteps st"
  "redrawNextFrame (resetPick st) = redrawNextFrame st"
  "lastClickWasDouble (resetPick st) = lastClickWasDouble st"
  "pickState (resetPick st) = NoSelection"
  "bufferWidth (resetPick st) = bufferWidth st"
  "bufferHeight (resetPick st) = bufferHeight st"
  "pickTable (resetPick st) = pickTable st"
  by (simp_all add: resetPick_def)

text \<open>
  C7: a pick query whose pointer coordinates lie outside the buffer leaves the state
  unchanged. Inside, the index read back decides: index zero gives \<open>NoSelection\<close>, whatever
  the rest of the state, and any other index gives \<open>Selected\<close> with the entry of the index
  table and the double-click flag latched in \<open>lastClickWasDouble\<close>. \<open>processMouseEvents\<close>
  latches that flag from the press event, before the query of the same loop step reads it.
\<close>

theorem evaluatePickQuery_outcome:
  "evaluatePickQuery readInd xPos yPos st =
     (if xPos < 0 \<or> bufferWidth st \<le> xPos \<or> yPos < 0 \<or> bufferHeight st \<le> yPos then st
      else if readInd xPos (bufferHeight st - yPos) = 0 then st\<lparr>pickState := NoSelection\<rparr>
      else st\<lparr>pickState :=
                Selected (fst (pickTable st (readInd xPos (bufferHeight st - yPos))))
                         (snd (pickTable st (readInd xPos (bufferHeight st - yPos))))
                         (lastClickWasDouble st)\<rparr>)
 \<and> lastClickWasDouble (processMouseEvents io st) =
     (if mouseClicked0 io then mouseDoubleClicked0 io else lastClickWasDouble st)
 \<and> (alwaysEvaluatePick st \<and> 0 \<le> pickX io \<and> pickX io < bufferWidth st
      \<and> 0 \<le> pickY io \<and> pickY io < bufferHeight st
      \<and> pickIndexAt io (pickX io) (bufferHeight st - pickY io) \<noteq> 0
    \<longrightarrow> pickState (processMouseEvents io st) =
          Selected (fst (pickTable st (pickIndexAt io (pickX io) (bufferHeight st - pickY io))))
                   (snd (pickTable st (pickIndexAt io (pickX io) (bufferHeight st - pickY io))))
                   (if mouseClicked0 io then mouseDoubleClicked0 io else lastClickWasDouble st))"
proof -
  have a: "evaluatePickQuery readInd xPos yPos st =
     (if xPos < 0 \<or> bufferWidth st \<le> xPos \<or> yPos < 0 \<or> bufferHeight st \<le> yPos then st
      else if readInd xPos (bufferHeight st - yPos) = 0 then st\<lparr>pickState := NoSelection\<rparr>
      else st\<lparr>pickState :=
                Selected (fst (pickTable st (readInd xPos (bufferHeight st - yPos))))
                         (snd (pickTable st (readInd xPos (bufferHeight st - yPos))))
                         (lastClickWasDouble st)\<rparr>)"
    by (simp add: evaluatePickQuery_def resetPick_def setCurrentPickElement_def Let_def
        split: prod.splits)
  have e: "\<And>r x y s. lastClickWasDouble (evaluatePickQuery r x y s) = lastClickWasDouble s"
    by (simp add: evaluatePickQuery_def resetPick_def setCurrentPickElement_def Let_def
        split: prod.splits)
  have b: "lastClickWasDouble (processMouseEvents io st) =
     (if mouseClicked0 io then mouseDoubleClicked0 io else lastClickWasDouble st)"
    by (simp add: processMouseEvents_def Let_def e requestRedraw_def resetPick_def
        split: prod.splits)
  have c: "alwaysEvaluatePick st \<and> 0 \<le> pickX io \<and> pickX io < bufferWidth st
      \<and> 0 \<le> pickY io \<and> pickY io < bufferHeight st
      \<and> pickIndexAt io (pickX io) (bufferHeight st - pickY io) \<noteq> 0
    \<longrightarrow> pickState (processMouseEvents io st) =
          Selected (fst (pickTable st (pickIndexAt io (pickX io) (bufferHeight st - pickY io))))
                   (snd (pickTable st (pickIndexAt io (pickX io) (bufferHeight st - pickY io))))
                   (if mouseClicked0 io then mouseDoubleClicked0 io else lastClickWasDouble st)"
    by (auto simp add: processMouseEvents_def Let_def evaluatePickQuery_def requestRedraw_def
        resetPick_def setCurrentPickElement_def split: prod.splits)
  show ?thesis using a b c by blast
qed

theorem evaluatePickQuery_outcome_witness:
  "evaluatePickQuery (\<lambda>x y. 0) (- 1) 5 oneCloudState = oneCloudState
 \<and> pickState (evaluatePickQuery (\<lambda>x y. 0) 5 5 oneCloudState) = NoSelection
 \<and> pickState (evaluatePickQuery (\<lambda>x y. 9) 5 5 oneCloudState) = Selected 1 9 False
 \<and> pickState (processMouseEvents
        (idleFrame\<lparr>mouseClicked0 := True, mouseDoubleClicked0 := True,
                    pickIndexAt := (\<lambda>x y. 9)\<rparr>)
        (oneCloudState\<lparr>alwaysEvaluatePick := True\<rparr>)) = Selected 1 9 True"
proof -
  let ?io = "idleFrame\<lparr>mouseClicked0 := True, mouseDoubleClicked0 := True,
                         pickIndexAt := (\<lambda>x y. 9)\<rparr>"
  let ?st = "oneCloudState\<lparr>alwaysEvaluatePick := True\<rparr>"
  have h: "alwaysEvaluatePick ?st \<and> 0 \<le> pickX ?io \<and> pickX ?io < bufferWidth ?st
      \<and> 0 \<le> pickY ?io \<and> pickY ?io < bufferHeight ?st
      \<and> pickIndexAt ?io (pickX ?io) (bufferHeight ?st - pickY ?io) \<noteq> 0"
    by (simp add: idleFrame_def oneCloudState_def initialState_def)
  note t1 = evaluatePickQuery_outcome [of "\<lambda>x y. 0" "- 1" 5 oneCloudState]
  note t2 = evaluatePickQuery_outcome [of "\<lambda>x y. 0" 5 5 oneCloudState]
  note t3 = evaluatePickQuery_outcome [of "\<lambda>x y. 9" 5 5 oneCloudState]
  note t4 = evaluatePickQuery_outcome [of "\<lambda>x y. 9" 5 5 ?st ?io]
  have p: "pickState (processMouseEvents ?io ?st) =
          Selected (fst (pickTable ?st (pickIndexAt ?io (pickX ?io) (bufferHeight ?st - pickY ?io))))
                   (snd (pickTable ?st (pickIndexAt ?io (pickX ?io) (bufferHeight ?st - pickY ?io))))
                   (if mouseClicked0 ?io then mouseDoubleClicked0 ?io else lastClickWasDouble ?st)"
    using mp [OF conjunct2 [OF conjunct2 [OF t4]] h] .
  have e1: "evaluatePickQuery (\<lambda>x y. 0) (- 1) 5 oneCloudState = oneCloudState"
    using conjunct1 [OF t1] by simp
  have e2: "pickState (evaluatePickQuery (\<lambda>x y. 0) 5 5 oneCloudState) = NoSelection"
    using conjunct1 [OF t2] by (simp add: oneCloudState_def initialState_def)
  have e3: "pickState (evaluatePickQuery (\<lambda>x y. 9) 5 5 oneCloudState) = Selected 1 9 False"
    using conjunct1 [OF t3] by (simp add: oneCloudState_def initialState_def)
  have e4: "pickState (processMouseEvents ?io ?st) = Selected 1 9 True"
    using p by (simp add: idleFrame_def oneCloudState_def initialState_def)
  show ?thesis using e1 e2 e3 e4 by blast
qed



subsection \<open>The main loop and the context stack\<close>

declare draw.simps [simp del] screenshot.simps [simp del]

lemma andThen_simps [simp]:
  "andThen None f = None"
  "andThen (Some (Inl e)) f = Some (Inl e)"
  "andThen (Some (Inr st)) f = f st"
  by (simp_all add: andThen_def)

lemma andThen_Some_Inr:
  "andThen r f = Some (Inr st') \<longleftrightarrow> (\<exists>st1. r = Some (Inr st1) \<and> f st1 = Some (Inr st'))"
  by (auto simp: andThen_def split: option.splits sum.splits)

lemma draw_scene_step:
  "draw reenter io withUI st = Some (Inr st') \<Longrightarrow> \<exists>st1. st' = spec_sceneStep st1"
  by (subst (asm) draw.simps)
     (auto simp: andThen_Some_Inr spec_sceneStep_def redrawRequested_def drawStructures_def)

lemma draw_noUI: "draw reenter io False st = Some (Inr (spec_sceneStep st))"
  by (subst draw.simps) (simp add: spec_sceneStep_def redrawRequested_def drawStructures_def)

lemma spec_sceneStep_clear: "\<not> redrawRequested (spec_sceneStep st)"
  by (simp add: spec_sceneStep_def redrawRequested_def)

lemma pushContextLoop_exit:
  "pushContextLoop env n k st = Some (Inr st') \<Longrightarrow> length (contextStack st') < k"
proof (induction n arbitrary: st)
  case 0
  then show ?case by (simp split: if_splits)
next
  case (Suc n)
  show ?case
  proof (cases "k \<le> length (contextStack st)")
    case True
    with Suc.prems obtain st1 where "pushContextLoop env n k st1 = Some (Inr st')"
      by (auto simp: andThen_Some_Inr)
    then show ?thesis by (rule Suc.IH)
  next
    case False
    with Suc.prems show ?thesis by simp
  qed
qed

lemma pushContext_returns_below:
  assumes "pushContext env n cb st = Some (Inr st')"
  shows "length (contextStack st') \<le> length (contextStack st) \<and> contextStack st' \<noteq> []"
proof (cases n)
  case 0
  with assms show ?thesis by simp
next
  case (Suc m)
  with assms obtain st2 where
    l: "pushContextLoop env m (Suc (length (contextStack st)))
          (st\<lparr>nextContext := Suc (nextContext st), currentContext := nextContext st,
              contextStack := contextStack st @ [\<lparr>uiContext = nextContext st, callback = cb\<rparr>]\<rparr>)
        = Some (Inr st2)"
    and r: "contextStack st2 \<noteq> []" "contextStack st' = contextStack st2"
    by (auto simp: Let_def andThen_Some_Inr split: if_splits)
  from pushContextLoop_exit [OF l] have "length (contextStack st2) \<le> length (contextStack st)"
    by simp
  with r show ?thesis by simp
qed


lemma mainLoopIteration_beforeDraw:
  "mainLoopIteration reenter io st = draw reenter io True (beforeDraw io st)"
  by (simp add: mainLoopIteration_def beforeDraw_def Let_def)

lemma evaluatePickQuery_fields [simp]:
  "contextStack (evaluatePickQuery r x y st) = contextStack st"
  "loopSteps (evaluatePickQuery r x y st) = loopSteps st"
  "nextContext (evaluatePickQuery r x y st) = nextContext st"
  "currentContext (evaluatePickQuery r x y st) = currentContext st"
  "destroyedContexts (evaluatePickQuery r x y st) = destroyedContexts st"
  "errors (evaluatePickQuery r x y st) = errors st"
  by (simp_all add: evaluatePickQuery_def resetPick_def setCurrentPickElement_def Let_def
      split: prod.splits)

lemma processMouseEvents_fields [simp]:
  "contextStack (processMouseEvents io st) = contextStack st"
  "loopSteps (processMouseEvents io st) = loopSteps st"
  "nextContext (processMouseEvents io st) = nextContext st"
  "currentContext (processMouseEvents io st) = currentContext st"
  "destroyedContexts (processMouseEvents io st) = destroyedContexts st"
  "errors (processMouseEvents io st) = errors st"
  by (simp_all add: processMouseEvents_def Let_def requestRedraw_def resetPick_def
      split: prod.splits)

lemma beforeDraw_fields [simp]:
  "contextStack (beforeDraw io st) = contextStack st"
  "loopSteps (beforeDraw io st) = Suc (loopSteps st)"
  "nextContext (beforeDraw io st) = nextContext st"
  "currentContext (beforeDraw io st) = currentContext st"
  "destroyedContexts (beforeDraw io st) = destroyedContexts st"
  "errors (beforeDraw io st) = errors st"
  by (simp_all add: beforeDraw_def Let_def requestRedraw_def)

lemma spec_sceneStep_fields [simp]:
  "contextStack (spec_sceneStep st) = contextStack st"
  "loopSteps (spec_sceneStep st) = loopSteps st"
  "nextContext (spec_sceneStep st) = nextContext st"
  "currentContext (spec_sceneStep st) = currentContext st"
  "destroyedContexts (spec_sceneStep st) = destroyedContexts st"
  "errors (spec_sceneStep st) = errors st"
  by (simp_all add: spec_sceneStep_def)

lemma draw_modal:
  assumes "length (contextStack st) \<noteq> 1" and "contextStack st \<noteq> []"
    and "callback (last (contextStack st)) = Some cb"
  shows "draw reenter io True st =
           andThen (runCallback reenter cb st) (\<lambda>st1. Some (Inr (spec_sceneStep st1)))"
proof (cases "contextStack st")
  case Nil
  with assms show ?thesis by simp
next
  case (Cons e es)
  with assms show ?thesis
    by (subst draw.simps)
       (simp add: spec_sceneStep_def redrawRequested_def drawStructures_def cong: if_cong)
qed

lemma pushContextLoop_done:
  "length (contextStack st) < k \<Longrightarrow> pushContextLoop env n k st = Some (Inr st)"
  by (cases n) simp_all

lemma popContext_deep:
  "length (contextStack st) \<noteq> 1 \<Longrightarrow> contextStack st \<noteq> [] \<Longrightarrow>
     popContext st = Inr (st\<lparr>contextStack := butlast (contextStack st)\<rparr>)"
  by (simp add: popContext_def)

lemma pushContext_immediate_pop:
  assumes ne: "contextStack st \<noteq> []"
  shows "\<exists>st'. pushContext env (Suc (Suc n)) (Some [CallPopContext]) st = Some (Inr st')
           \<and> contextStack st' = contextStack st
           \<and> loopSteps st' = Suc (loopSteps st)
           \<and> errors st' = errors st
           \<and> nextContext st' = Suc (nextContext st)
           \<and> currentContext st' = uiContext (last (contextStack st))
           \<and> destroyedContexts st' = destroyedContexts st @ [nextContext st]"
proof -
  let ?entry = "\<lparr>uiContext = nextContext st, callback = Some [CallPopContext]\<rparr>"
  let ?st1 = "st\<lparr>nextContext := Suc (nextContext st), currentContext := nextContext st,
                 contextStack := contextStack st @ [?entry]\<rparr>"
  let ?r = "\<lambda>cb st'. pushContext env n cb st'"
  define io where "io = env (loopSteps st)"
  define s where "s = beforeDraw io ?st1"
  have stack: "contextStack s = contextStack st @ [?entry]" by (simp add: s_def)
  have len: "length (contextStack s) \<noteq> 1" using ne by (simp add: stack)
  have pop: "popContext s = Inr (s\<lparr>contextStack := contextStack st\<rparr>)"
    using popContext_deep [OF len] by (simp add: stack)
  have run: "runCallback ?r [CallPopContext] s = Some (Inr (s\<lparr>contextStack := contextStack st\<rparr>))"
    by (simp add: pop)
  define s2 where "s2 = spec_sceneStep (s\<lparr>contextStack := contextStack st\<rparr>)"
  have d: "draw ?r io True s = Some (Inr s2)"
    using draw_modal [OF len, of "[CallPopContext]" ?r io] by (simp add: stack pop s2_def)
  have it: "mainLoopIteration ?r (env (loopSteps ?st1)) ?st1 = Some (Inr s2)"
    using d by (simp add: mainLoopIteration_beforeDraw s_def io_def)
  have s2_fields: "contextStack s2 = contextStack st" "loopSteps s2 = Suc (loopSteps st)"
    "errors s2 = errors st" "nextContext s2 = Suc (nextContext st)"
    "destroyedContexts s2 = destroyedContexts st"
    by (simp_all add: s2_def s_def)
  have loop: "pushContextLoop env (Suc n) (Suc (length (contextStack st))) ?st1 = Some (Inr s2)"
    using it by (simp add: pushContextLoop_done s2_fields)
  show ?thesis
    using ne loop by (simp add: Let_def s2_fields)
qed


lemma pushContext_nested:
  assumes ne: "contextStack st \<noteq> []"
  shows "\<exists>st'. pushContext env (Suc (Suc (Suc (Suc n))))
                 (Some [CallPushContext (Some [CallPopContext]), CallPopContext]) st
               = Some (Inr st')
           \<and> contextStack st' = contextStack st
           \<and> loopSteps st' = Suc (Suc (loopSteps st))
           \<and> errors st' = errors st"
proof -
  let ?A = "[CallPushContext (Some [CallPopContext]), CallPopContext]"
  let ?entry = "\<lparr>uiContext = nextContext st, callback = Some ?A\<rparr>"
  let ?st1 = "st\<lparr>nextContext := Suc (nextContext st), currentContext := nextContext st,
                 contextStack := contextStack st @ [?entry]\<rparr>"
  let ?r = "\<lambda>cb st'. pushContext env (Suc (Suc n)) cb st'"
  define io where "io = env (loopSteps st)"
  define s where "s = beforeDraw io ?st1"
  have stack: "contextStack s = contextStack st @ [?entry]" by (simp add: s_def)
  have len: "length (contextStack s) \<noteq> 1" using ne by (simp add: stack)
  have sne: "contextStack s \<noteq> []" by (simp add: stack)
  from pushContext_immediate_pop [OF sne, of env n] obtain t where
    t: "pushContext env (Suc (Suc n)) (Some [CallPopContext]) s = Some (Inr t)"
    and t_stack: "contextStack t = contextStack s"
    and t_steps: "loopSteps t = Suc (loopSteps s)"
    and t_errors: "errors t = errors s"
    by blast
  have tlen: "length (contextStack t) \<noteq> 1" using len by (simp add: t_stack)
  have pop: "popContext t = Inr (t\<lparr>contextStack := contextStack st\<rparr>)"
    using popContext_deep [OF tlen] by (simp add: t_stack stack)
  define s2 where "s2 = spec_sceneStep (t\<lparr>contextStack := contextStack st\<rparr>)"
  have d: "draw ?r io True s = Some (Inr s2)"
    using draw_modal [OF len, of ?A ?r io]
    by (simp add: stack t pop s2_def del: pushContext.simps)
  have it: "mainLoopIteration (pushContext env (Suc (Suc n))) (env (loopSteps st)) ?st1
              = Some (Inr s2)"
    using d by (simp add: mainLoopIteration_beforeDraw s_def io_def del: pushContext.simps)
  have s2_fields: "contextStack s2 = contextStack st" "loopSteps s2 = Suc (Suc (loopSteps st))"
    "errors s2 = errors st"
    by (simp_all add: s2_def t_steps t_errors) (simp_all add: s_def)
  have loop: "pushContextLoop env (Suc (Suc (Suc n))) (Suc (length (contextStack st))) ?st1
                = Some (Inr s2)"
    using it by (simp add: pushContextLoop_done s2_fields del: pushContext.simps)
  show ?thesis
    using ne
    by (subst pushContext.simps)
       (simp add: Let_def it pushContextLoop_done s2_fields del: pushContext.simps)
qed

text \<open>
  C6: \<open>pushContext\<close> pushes the entry and runs loop steps while the stack is at least as
  deep as just after the push. On a non-empty stack, with a callback that calls \<open>popContext\<close>
  at once, it returns after exactly one loop step with the stack as before the call, the
  created context destroyed and the previous one current. With a callback that pushes such a
  context and then pops its own, the inner call returns first, the outer one after two loop
  steps in all, and the stack is again as before. The loop of any call returns only with the
  stack below the depth just after its own push, and returns at once when it is.
\<close>

theorem pushContext_lifo:
  "(contextStack st \<noteq> [] \<longrightarrow>
      (\<exists>st'. pushContext env (Suc (Suc n)) (Some [CallPopContext]) st = Some (Inr st')
          \<and> contextStack st' = contextStack st
          \<and> loopSteps st' = Suc (loopSteps st)
          \<and> errors st' = errors st
          \<and> currentContext st' = uiContext (last (contextStack st))
          \<and> destroyedContexts st' = destroyedContexts st @ [nextContext st]))
 \<and> (contextStack st \<noteq> [] \<longrightarrow>
      (\<exists>st'. pushContext env (Suc (Suc (Suc (Suc n))))
                (Some [CallPushContext (Some [CallPopContext]), CallPopContext]) st
              = Some (Inr st')
          \<and> contextStack st' = contextStack st
          \<and> loopSteps st' = Suc (Suc (loopSteps st))
          \<and> errors st' = errors st))
 \<and> (k \<le> length (contextStack st) \<longrightarrow>
      pushContextLoop env (Suc m) k st =
        andThen (mainLoopIteration (pushContext env m) (env (loopSteps st)) st)
          (pushContextLoop env m k))
 \<and> (pushContextLoop env m k st = Some (Inr loopEnd) \<longrightarrow> length (contextStack loopEnd) < k)
 \<and> (length (contextStack st) < k \<longrightarrow> pushContextLoop env m k st = Some (Inr st))
 \<and> (pushContext env m cb st = Some (Inr returned) \<longrightarrow>
      length (contextStack returned) \<le> length (contextStack st) \<and> contextStack returned \<noteq> [])"
proof -
  have step: "k \<le> length (contextStack st) \<longrightarrow>
      pushContextLoop env (Suc m) k st =
        andThen (mainLoopIteration (pushContext env m) (env (loopSteps st)) st)
          (pushContextLoop env m k)"
    by (simp del: mainLoopIteration_def pushContext.simps pushContextLoop.simps
        add: pushContextLoop.simps(2))
  show ?thesis
    using step pushContext_immediate_pop [of st env n] pushContext_nested [of st env n]
      pushContextLoop_exit [of env m k st loopEnd] pushContextLoop_done [of st k env m]
      pushContext_returns_below [of env m cb st returned]
    by blast
qed

theorem pushContext_lifo_witness:
  "contextStack initialState \<noteq> []
 \<and> (\<exists>st'. pushContext (\<lambda>k. idleFrame) 2 (Some [CallPopContext]) initialState = Some (Inr st')
        \<and> contextStack st' = [rootEntry] \<and> loopSteps st' = 1
        \<and> length (contextStack st') \<le> length (contextStack initialState))
 \<and> (\<exists>st'. pushContext (\<lambda>k. idleFrame) 4
              (Some [CallPushContext (Some [CallPopContext]), CallPopContext]) initialState
            = Some (Inr st')
        \<and> contextStack st' = [rootEntry] \<and> loopSteps st' = 2)
 \<and> pushContextLoop (\<lambda>k. idleFrame) 0 2 initialState = Some (Inr initialState)
 \<and> pushContextLoop (\<lambda>k. idleFrame) (Suc 0) 1 initialState =
       andThen (mainLoopIteration (pushContext (\<lambda>k. idleFrame) 0) idleFrame initialState)
         (pushContextLoop (\<lambda>k. idleFrame) 0 1)"
proof -
  have ne: "contextStack initialState \<noteq> []" by (simp add: initialState_def)
  have two: "(2::nat) = Suc (Suc 0)" and four: "(4::nat) = Suc (Suc (Suc (Suc 0)))" by simp_all
  note t = pushContext_lifo
    [where st = initialState and env = "\<lambda>k. idleFrame" and n = 0 and m = 0 and k = 2]
  from t ne obtain st' where
    p: "pushContext (\<lambda>k. idleFrame) 2 (Some [CallPopContext]) initialState = Some (Inr st')"
    and f: "contextStack st' = contextStack initialState" "loopSteps st' = Suc (loopSteps initialState)"
    unfolding two by blast
  from t ne obtain st'' where
    p2: "pushContext (\<lambda>k. idleFrame) 4
           (Some [CallPushContext (Some [CallPopContext]), CallPopContext]) initialState
         = Some (Inr st'')"
    and f2: "contextStack st'' = contextStack initialState"
      "loopSteps st'' = Suc (Suc (loopSteps initialState))"
    unfolding four by blast
  have l: "length (contextStack initialState) < 2" by (simp add: initialState_def)
  have d: "pushContextLoop (\<lambda>k. idleFrame) 0 2 initialState = Some (Inr initialState)"
    using t l by blast
  have a: "length (contextStack st') \<le> length (contextStack initialState)"
    using pushContext_lifo
      [where st = initialState and env = "\<lambda>k. idleFrame" and m = 2
         and cb = "Some [CallPopContext]" and returned = st'] p
    by blast
  have k1: "1 \<le> length (contextStack initialState)" by (simp add: initialState_def)
  have st: "pushContextLoop (\<lambda>k. idleFrame) (Suc 0) 1 initialState =
       andThen (mainLoopIteration (pushContext (\<lambda>k. idleFrame) 0) idleFrame initialState)
         (pushContextLoop (\<lambda>k. idleFrame) 0 1)"
    using pushContext_lifo
      [where st = initialState and env = "\<lambda>k. idleFrame" and m = 0 and k = 1] k1
    by blast
  have fs: "contextStack st' = [rootEntry]" "loopSteps st' = 1"
    "contextStack st'' = [rootEntry]" "loopSteps st'' = 2"
    using f f2 by (simp_all add: initialState_def)
  show ?thesis
    using ne p fs p2 d a st by blast
qed


subsection \<open>Redraw on demand\<close>

lemma processMouseEvents_quiet:
  assumes "\<not> anyMouseDown io"
    and "wantCaptureMouse io \<or> (mouseWheelH io = Fin 0 \<and> mouseWheel io = Fin 0 \<and> \<not> mouseDragging0 io)"
  shows "redrawNextFrame (processMouseEvents io st) = redrawNextFrame st"
    and "alwaysRedraw (processMouseEvents io st) = alwaysRedraw st"
    and "sceneDraws (processMouseEvents io st) = sceneDraws st"
    and "userCallback (processMouseEvents io st) = userCallback st"
    and "deleted (processMouseEvents io st) = deleted st"
  using assms
  by (auto simp add: processMouseEvents_def Let_def requestRedraw_def resetPick_def
      evaluatePickQuery_def setCurrentPickElement_def split: prod.splits)

lemma quiet_iteration:
  assumes size: "newBufferWidth io = bufferWidth st" "newBufferHeight io = bufferHeight st"
      "newWindowWidth io = windowWidth st" "newWindowHeight io = windowHeight st"
    and mouse: "\<not> anyMouseDown io"
      "wantCaptureMouse io \<or> (mouseWheelH io = Fin 0 \<and> mouseWheel io = Fin 0 \<and> \<not> mouseDragging0 io)"
    and gui: "length (contextStack st) = 1" "userCallback st = None" "\<not> screenshotButton io"
    and heap: "deleted st = []"
  shows "\<exists>st'. mainLoopIteration reenter io st = Some (Inr st')
           \<and> sceneDraws st' = (if redrawRequested st \<or> alwaysRedraw st
                                then Suc (sceneDraws st) else sceneDraws st)
           \<and> \<not> redrawRequested st'"
proof -
  define s0 where "s0 = st\<lparr>loopSteps := Suc (loopSteps st)\<rparr>"
  define s where "s = processMouseEvents io s0"
  have bd: "beforeDraw io st = s"
    using size by (simp add: beforeDraw_def s_def s0_def Let_def)
  note q = processMouseEvents_quiet [OF mouse, of s0]
  have f: "redrawNextFrame s = redrawNextFrame st" "alwaysRedraw s = alwaysRedraw st"
    "sceneDraws s = sceneDraws st" "userCallback s = None" "deleted s = []"
    "length (contextStack s) = 1"
    using q gui heap by (simp_all add: s_def s0_def)
  define g where "g = (if showPickBufferClicked io
                       then s\<lparr>debugDrawPickBuffer := \<not> debugDrawPickBuffer s\<rparr> else s)"
  have gf: "redrawNextFrame g = redrawNextFrame st" "alwaysRedraw g = alwaysRedraw st"
    "sceneDraws g = sceneDraws st" "deleted g = []"
    using f by (simp_all add: g_def)
  have pg: "buildPickGui g = Inr g"
    by (simp add: buildPickGui_def gf split: PickState.splits)
  have d: "draw reenter io True s = Some (Inr (spec_sceneStep g))"
    using f gui(3) pg
    by (subst draw.simps)
       (simp add: g_def [symmetric] spec_sceneStep_def redrawRequested_def drawStructures_def
          cong: if_cong)
  show ?thesis
    by (simp add: mainLoopIteration_beforeDraw bd d spec_sceneStep_def redrawRequested_def gf
        del: mainLoopIteration_def)
qed

lemma sceneUntouched_refl [simp]: "sceneUntouched st st"
  by (simp add: sceneUntouched_def)

lemma sceneUntouched_trans: "sceneUntouched a b \<Longrightarrow> sceneUntouched b c \<Longrightarrow> sceneUntouched a c"
  by (simp add: sceneUntouched_def)

lemma sceneUntouched_updateStructureExtents [simp]:
  "sceneUntouched st (updateStructureExtents st)"
  by (simp add: sceneUntouched_def updateStructureExtents_def Let_def split: prod.splits)

lemma sceneUntouched_error [simp]: "sceneUntouched st (error msg st)"
  by (simp add: sceneUntouched_def error_def)

lemma sceneUntouched_requestRedraw [simp]: "sceneUntouched st (requestRedraw st)"
  by (simp add: sceneUntouched_def requestRedraw_def)

lemma sceneUntouched_resetPick [simp]: "sceneUntouched st (resetPick st)"
  by (simp add: sceneUntouched_def resetPick_def)

lemma sceneUntouched_removeStructure [simp]:
  "sceneUntouched st (removeStructure ty nm e st)"
  by (simp add: sceneUntouched_def removeStructure_def updateStructureExtents_def error_def
      clearPickIfStructureSelected_def resetPick_def Let_def
      split: option.splits prod.splits PickState.splits)

lemma sceneUntouched_removeStructureByName [simp]:
  "sceneUntouched st (removeStructureByName nm st)"
proof -
  have "\<And>t :: Structure.
          sceneUntouched st (requestRedraw (removeStructure (type t) (name t) True st))"
    by (rule sceneUntouched_trans [OF sceneUntouched_removeStructure sceneUntouched_requestRedraw])
  then show ?thesis
    by (simp add: removeStructureByName_def split: sum.splits option.splits)
qed

lemma sceneUntouched_removeNames: "sceneUntouched st (removeNames ty names st)"
proof (induction names arbitrary: st)
  case Nil
  show ?case by simp
next
  case (Cons nm names)
  show ?case
    using sceneUntouched_trans [OF sceneUntouched_removeStructure Cons.IH] by simp
qed

lemma sceneUntouched_removeEachType: "sceneUntouched st (removeEachType reg st)"
proof (induction reg arbitrary: st)
  case Nil
  show ?case by simp
next
  case (Cons c reg)
  obtain ty m where c: "c = (ty, m)" by (cases c)
  show ?case
    using sceneUntouched_trans [OF sceneUntouched_removeNames Cons.IH] by (simp add: c)
qed

lemma sceneUntouched_removeAllStructures [simp]:
  "sceneUntouched st (removeAllStructures st)"
  unfolding removeAllStructures_def
  by (rule sceneUntouched_trans [OF sceneUntouched_removeEachType
        sceneUntouched_trans [OF sceneUntouched_requestRedraw sceneUntouched_resetPick]])

lemma sceneUntouched_registerStructure [simp]:
  "sceneUntouched st (snd (registerStructure s r st))"
proof -
  define st1 where "st1 = (if map_of (structures st) (type s) = None
                 then st\<lparr>structures := map_set (type s) [] (structures st)\<rparr> else st)"
  have a: "sceneUntouched st st1" by (simp add: st1_def sceneUntouched_def)
  define st2 where "st2 = (if map_of (map_at (structures st1) (type s)) (name s) \<noteq> None
                           then removeStructureByName (name s) st1 else st1)"
  have b: "sceneUntouched st1 st2" by (simp add: st2_def)
  define st3 where "st3 = st2\<lparr>structures := map_modify (type s) (map_set (name s) s) (structures st2)\<rparr>"
  have c: "sceneUntouched st2 st3" by (simp add: st3_def sceneUntouched_def)
  have d: "sceneUntouched st3 (requestRedraw (updateStructureExtents st3))"
    by (rule sceneUntouched_trans [OF sceneUntouched_updateStructureExtents sceneUntouched_requestRedraw])
  have e: "sceneUntouched st (requestRedraw (updateStructureExtents st3))"
    using a b c d sceneUntouched_trans by blast
  have f: "sceneUntouched st (error msg st1)" for msg
    using a sceneUntouched_error sceneUntouched_trans by blast
  show ?thesis
    using e f
    by (auto simp: registerStructure_def Let_def st1_def [symmetric] st2_def st3_def)
qed

lemma sceneUntouched_popContext: "popContext st = Inr s \<Longrightarrow> sceneUntouched st s"
  by (auto simp: popContext_def sceneUntouched_def error_def Let_def split: if_splits)

lemma sceneUntouched_runCallback:
  assumes "list_all (\<lambda>c. \<not> isPushContext c) cb" and "runCallback reenter cb st = Some (Inr s)"
  shows "sceneUntouched st s"
  using assms
proof (induction cb arbitrary: st)
  case Nil
  then show ?case by simp
next
  case (Cons c cb)
  from Cons.prems(2) obtain st1 where
    step: "(case c of
          CallPopContext \<Rightarrow> Some (popContext st)
        | CallPushContext cb \<Rightarrow> reenter cb st
        | CallRequestRedraw \<Rightarrow> Some (Inr (requestRedraw st))
        | CallRegisterStructure s replaceIfPresent \<Rightarrow>
            Some (Inr (snd (registerStructure s replaceIfPresent st)))
        | CallRemoveStructure nm \<Rightarrow> Some (Inr (removeStructureByName nm st))
        | CallRemoveStructureTyped ty nm errorIfAbsent \<Rightarrow>
            Some (Inr (removeStructure ty nm errorIfAbsent st))
        | CallRemoveAllStructures \<Rightarrow> Some (Inr (removeAllStructures st))) = Some (Inr st1)"
    and rest: "runCallback reenter cb st1 = Some (Inr s)"
    by (auto simp: andThen_Some_Inr)
  from Cons.prems(1) have np: "\<not> isPushContext c" and tl: "list_all (\<lambda>c. \<not> isPushContext c) cb"
    by simp_all
  have "sceneUntouched st st1"
    using step np by (cases c) (auto simp: sceneUntouched_popContext)
  moreover have "sceneUntouched st1 s" using Cons.IH [OF tl rest] .
  ultimately show ?case by (rule sceneUntouched_trans)
qed


lemma draw_gui_scene:
  "draw reenter io withUI st =
     andThen (drawGui reenter io withUI st) (\<lambda>s. Some (Inr (spec_sceneStep s)))"
  by (subst draw.simps)
     (simp add: drawGui_def spec_sceneStep_def redrawRequested_def drawStructures_def
        cong: if_cong)

lemma screenshot_exact:
  "screenshot reenter io transparentBG st =
     Some (Inr ((spec_sceneStep (requestRedraw st))\<lparr>screenshotInd := Suc (screenshotInd st)\<rparr>))"
  by (subst screenshot.simps)
     (simp add: draw_noUI spec_sceneStep_def redrawRequested_def requestRedraw_def)

lemma sceneUntouched_processMouseEvents [simp]: "sceneUntouched st (processMouseEvents io st)"
  by (auto simp add: sceneUntouched_def processMouseEvents_def Let_def requestRedraw_def
      resetPick_def evaluatePickQuery_def setCurrentPickElement_def split: prod.splits)

lemma sceneUntouched_beforeDraw [simp]: "sceneUntouched st (beforeDraw io st)"
proof -
  define s1 where "s1 = (let st0 = st\<lparr>loopSteps := Suc (loopSteps st)\<rparr>
     in if newBufferWidth io \<noteq> bufferWidth st0 \<or> newBufferHeight io \<noteq> bufferHeight st0
           \<or> newWindowHeight io \<noteq> windowHeight st0 \<or> newWindowWidth io \<noteq> windowWidth st0
        then (requestRedraw st0)\<lparr>bufferWidth := newBufferWidth io,
                                 bufferHeight := newBufferHeight io,
                                 windowWidth := newWindowWidth io,
                                 windowHeight := newWindowHeight io\<rparr>
        else st0)"
  have a: "sceneUntouched st s1"
    by (simp add: s1_def sceneUntouched_def Let_def requestRedraw_def)
  have b: "beforeDraw io st = processMouseEvents io s1"
    by (simp add: beforeDraw_def s1_def Let_def)
  show ?thesis
    unfolding b by (rule sceneUntouched_trans [OF a sceneUntouched_processMouseEvents])
qed

lemma processMouseEvents_userCallback [simp]:
  "userCallback (processMouseEvents io st) = userCallback st"
  by (auto simp add: processMouseEvents_def Let_def requestRedraw_def
      resetPick_def evaluatePickQuery_def setCurrentPickElement_def split: prod.splits)

lemma noReentry_beforeDraw [simp]: "noReentry (beforeDraw io st) = noReentry st"
proof -
  have "userCallback (beforeDraw io st) = userCallback st"
    by (simp add: beforeDraw_def Let_def requestRedraw_def)
  then show ?thesis by (simp add: noReentry_def)
qed

lemma drawGui_untouched:
  assumes nr: "noReentry st" and ns: "\<not> screenshotButton io"
    and g: "drawGui reenter io withUI st = Some (Inr s)"
  shows "sceneUntouched st s"
proof (cases withUI)
  case False
  with g show ?thesis by (simp add: drawGui_def)
next
  case ui: True
  show ?thesis
  proof (cases "length (contextStack st) = 1")
    case True
    from g ui True ns obtain st1 where
      u: "(case userCallback st of None \<Rightarrow> Some (Inr st)
           | Some cb \<Rightarrow> runCallback reenter cb st) = Some (Inr st1)"
      and p: "buildPickGui (if showPickBufferClicked io
                then st1\<lparr>debugDrawPickBuffer := \<not> debugDrawPickBuffer st1\<rparr> else st1) = Inr s"
      by (auto simp: drawGui_def andThen_Some_Inr)
    have a: "sceneUntouched st st1"
    proof (cases "userCallback st")
      case None
      with u show ?thesis by simp
    next
      case (Some cb)
      with nr have "list_all (\<lambda>c. \<not> isPushContext c) cb" by (simp add: noReentry_def)
      with u Some show ?thesis using sceneUntouched_runCallback by simp
    qed
    have b: "sceneUntouched st1 s"
      using p by (auto simp: buildPickGui_def sceneUntouched_def split: PickState.splits if_splits)
    show ?thesis using a b by (rule sceneUntouched_trans)
  next
    case False
    with g ui obtain cb where ne: "contextStack st \<noteq> []"
      and c: "callback (last (contextStack st)) = Some cb"
      and r: "runCallback reenter cb st = Some (Inr s)"
      by (auto simp: drawGui_def split: list.splits option.splits)
    from ne have "last (contextStack st) \<in> set (contextStack st)" by simp
    with nr c have "list_all (\<lambda>c. \<not> isPushContext c) cb"
      by (auto simp: noReentry_def list_all_iff split: option.splits)
    then show ?thesis using r by (rule sceneUntouched_runCallback)
  qed
qed

lemma iteration_rasterizes_iff:
  assumes nr: "noReentry st" and ns: "\<not> screenshotButton io"
    and it: "mainLoopIteration reenter io st = Some (Inr st')"
  shows "\<exists>s. drawGui reenter io True (beforeDraw io st) = Some (Inr s)
           \<and> st' = spec_sceneStep s
           \<and> sceneDraws s = sceneDraws st
           \<and> sceneDraws st' = (if redrawRequested s \<or> alwaysRedraw st
                                then Suc (sceneDraws st) else sceneDraws st)
           \<and> (redrawRequested st \<longrightarrow> redrawRequested s)
           \<and> \<not> redrawRequested st'"
proof -
  from it obtain s where g: "drawGui reenter io True (beforeDraw io st) = Some (Inr s)"
    and e: "st' = spec_sceneStep s"
    by (auto simp: mainLoopIteration_beforeDraw draw_gui_scene andThen_Some_Inr
        simp del: mainLoopIteration_def)
  have "sceneUntouched (beforeDraw io st) s"
    using drawGui_untouched [OF _ ns g] nr by simp
  with sceneUntouched_beforeDraw [of st io] have u: "sceneUntouched st s"
    by (rule sceneUntouched_trans)
  show ?thesis
    using g e u
    by (auto simp: sceneUntouched_def spec_sceneStep_def redrawRequested_def)
qed

text \<open>
  C9: \<open>requestRedraw\<close> sets the redraw flag and \<open>redrawRequested\<close> reads it. The scene step
  of \<open>draw\<close> rasterizes exactly when the flag or the always-redraw override is set, and
  leaves the flag clear. On every input \<open>draw\<close> is its GUI part followed by that one scene
  step: \<open>draw\<close> without the GUI is the step alone, on a nested context the GUI part is the
  callback of the innermost context, and a screenshot is a request followed by the step.
  \<open>mainLoopIteration\<close> is \<open>draw\<close> with the GUI after the window and mouse handling, which
  rasterizes nothing, leaves the override alone and keeps a pending request. When no
  callback starts a nested loop and no screenshot is taken, the GUI part likewise rasterizes
  nothing and keeps a pending request, so a loop step rasterizes the scene exactly once if
  the flag is set when the scene step is reached or the override is on, and not at all
  otherwise; a request pending on entry is still pending there. A loop step on the root
  context in which the window size is unchanged, no button is down, there is no scroll or
  drag, no user callback and no screenshot rasterizes the scene once when the flag or the
  override was set on entry and not at all otherwise.
\<close>

theorem redraw_on_demand:
  "redrawRequested (requestRedraw st)
 \<and> redrawRequested st = redrawNextFrame st
 \<and> draw reenter io False st = Some (Inr (spec_sceneStep st))
 \<and> (length (contextStack st) \<noteq> 1 \<and> contextStack st \<noteq> []
      \<and> callback (last (contextStack st)) = Some cb
    \<longrightarrow> draw reenter io True st =
          andThen (runCallback reenter cb st) (\<lambda>st0. Some (Inr (spec_sceneStep st0))))
 \<and> (draw reenter io True st = Some (Inr drawn) \<longrightarrow>
      (\<exists>st0. drawn = spec_sceneStep st0) \<and> \<not> redrawRequested drawn)
 \<and> sceneDraws (spec_sceneStep st) =
      (if redrawRequested st \<or> alwaysRedraw st then Suc (sceneDraws st) else sceneDraws st)
 \<and> \<not> redrawRequested (spec_sceneStep st)
 \<and> (newBufferWidth io = bufferWidth st \<and> newBufferHeight io = bufferHeight st
      \<and> newWindowWidth io = windowWidth st \<and> newWindowHeight io = windowHeight st
      \<and> \<not> anyMouseDown io
      \<and> (wantCaptureMouse io
          \<or> (mouseWheelH io = Fin 0 \<and> mouseWheel io = Fin 0 \<and> \<not> mouseDragging0 io))
      \<and> length (contextStack st) = 1 \<and> userCallback st = None \<and> \<not> screenshotButton io
      \<and> deleted st = []
    \<longrightarrow> (\<exists>st'. mainLoopIteration reenter io st = Some (Inr st')
           \<and> sceneDraws st' = (if redrawRequested st \<or> alwaysRedraw st
                                then Suc (sceneDraws st) else sceneDraws st)
           \<and> \<not> redrawRequested st'))
 \<and> draw reenter io withUI st =
      andThen (drawGui reenter io withUI st) (\<lambda>shown. Some (Inr (spec_sceneStep shown)))
 \<and> screenshot reenter io transparentBG st =
      Some (Inr ((spec_sceneStep (requestRedraw st))\<lparr>screenshotInd := Suc (screenshotInd st)\<rparr>))
 \<and> mainLoopIteration reenter io st = draw reenter io True (beforeDraw io st)
 \<and> sceneDraws (beforeDraw io st) = sceneDraws st
 \<and> alwaysRedraw (beforeDraw io st) = alwaysRedraw st
 \<and> (redrawRequested st \<longrightarrow> redrawRequested (beforeDraw io st))
 \<and> (noReentry st \<and> \<not> screenshotButton io
      \<and> drawGui reenter io withUI st = Some (Inr shown)
    \<longrightarrow> sceneDraws shown = sceneDraws st \<and> alwaysRedraw shown = alwaysRedraw st
        \<and> (redrawRequested st \<longrightarrow> redrawRequested shown))
 \<and> (noReentry st \<and> \<not> screenshotButton io
      \<and> mainLoopIteration reenter io st = Some (Inr stepped)
    \<longrightarrow> (\<exists>gui. drawGui reenter io True (beforeDraw io st) = Some (Inr gui)
           \<and> stepped = spec_sceneStep gui
           \<and> sceneDraws gui = sceneDraws st
           \<and> (redrawRequested st \<longrightarrow> redrawRequested gui)
           \<and> sceneDraws stepped = (if redrawRequested gui \<or> alwaysRedraw st
                                   then Suc (sceneDraws st) else sceneDraws st)
           \<and> \<not> redrawRequested stepped))"
proof -
  have a: "redrawRequested (requestRedraw st)" "redrawRequested st = redrawNextFrame st"
    by (simp_all add: redrawRequested_def)
  have b: "sceneDraws (spec_sceneStep st) =
      (if redrawRequested st \<or> alwaysRedraw st then Suc (sceneDraws st) else sceneDraws st)"
    by (simp add: spec_sceneStep_def)
  have c: "sceneDraws (beforeDraw io st) = sceneDraws st"
    "alwaysRedraw (beforeDraw io st) = alwaysRedraw st"
    "redrawRequested st \<longrightarrow> redrawRequested (beforeDraw io st)"
    using sceneUntouched_beforeDraw [of st io]
    by (simp_all add: sceneUntouched_def redrawRequested_def)
  have d: "noReentry st \<and> \<not> screenshotButton io
      \<and> drawGui reenter io withUI st = Some (Inr shown)
    \<longrightarrow> sceneDraws shown = sceneDraws st \<and> alwaysRedraw shown = alwaysRedraw st
        \<and> (redrawRequested st \<longrightarrow> redrawRequested shown)"
    using drawGui_untouched [of st io reenter withUI shown]
    by (simp add: sceneUntouched_def redrawRequested_def)
  have e: "noReentry st \<and> \<not> screenshotButton io
      \<and> mainLoopIteration reenter io st = Some (Inr stepped)
    \<longrightarrow> (\<exists>gui. drawGui reenter io True (beforeDraw io st) = Some (Inr gui)
           \<and> stepped = spec_sceneStep gui
           \<and> sceneDraws gui = sceneDraws st
           \<and> (redrawRequested st \<longrightarrow> redrawRequested gui)
           \<and> sceneDraws stepped = (if redrawRequested gui \<or> alwaysRedraw st
                                   then Suc (sceneDraws st) else sceneDraws st)
           \<and> \<not> redrawRequested stepped)"
    using iteration_rasterizes_iff [of st io reenter stepped] by blast
  have f: "mainLoopIteration reenter io st = draw reenter io True (beforeDraw io st)"
    by (rule mainLoopIteration_beforeDraw)
  have old: "draw reenter io False st = Some (Inr (spec_sceneStep st))
 \<and> (length (contextStack st) \<noteq> 1 \<and> contextStack st \<noteq> []
      \<and> callback (last (contextStack st)) = Some cb
    \<longrightarrow> draw reenter io True st =
          andThen (runCallback reenter cb st) (\<lambda>st0. Some (Inr (spec_sceneStep st0))))
 \<and> (draw reenter io True st = Some (Inr drawn) \<longrightarrow>
      (\<exists>st0. drawn = spec_sceneStep st0) \<and> \<not> redrawRequested drawn)
 \<and> \<not> redrawRequested (spec_sceneStep st)
 \<and> (newBufferWidth io = bufferWidth st \<and> newBufferHeight io = bufferHeight st
      \<and> newWindowWidth io = windowWidth st \<and> newWindowHeight io = windowHeight st
      \<and> \<not> anyMouseDown io
      \<and> (wantCaptureMouse io
          \<or> (mouseWheelH io = Fin 0 \<and> mouseWheel io = Fin 0 \<and> \<not> mouseDragging0 io))
      \<and> length (contextStack st) = 1 \<and> userCallback st = None \<and> \<not> screenshotButton io
      \<and> deleted st = []
    \<longrightarrow> (\<exists>st'. mainLoopIteration reenter io st = Some (Inr st')
           \<and> sceneDraws st' = (if redrawRequested st \<or> alwaysRedraw st
                                then Suc (sceneDraws st) else sceneDraws st)
           \<and> \<not> redrawRequested st'))"
    using draw_noUI [of reenter io st] draw_scene_step [of reenter io True st drawn]
      spec_sceneStep_clear quiet_iteration [of io st reenter]
      draw_modal [of st cb reenter io]
    by blast
  show ?thesis
    using a b c d e f old draw_gui_scene [of reenter io withUI st]
      screenshot_exact [of reenter io transparentBG st]
    by (intro conjI) blast+
qed

theorem redraw_on_demand_witness:
  "(\<exists>st'. mainLoopIteration (\<lambda>cb st. None) idleFrame initialState = Some (Inr st')
        \<and> sceneDraws st' = 1 \<and> \<not> redrawRequested st')
 \<and> (\<exists>st'. mainLoopIteration (\<lambda>cb st. None) idleFrame (initialState\<lparr>redrawNextFrame := False\<rparr>)
          = Some (Inr st')
        \<and> sceneDraws st' = 0 \<and> \<not> redrawRequested st')
 \<and> draw (\<lambda>cb st. None) idleFrame True initialState = Some (Inr (spec_sceneStep initialState))
 \<and> \<not> redrawRequested (spec_sceneStep initialState)
 \<and> (\<exists>st'. draw (\<lambda>cb st. None) idleFrame True
              (initialState\<lparr>redrawNextFrame := False,
                 contextStack := [rootEntry, \<lparr>uiContext = 1, callback = Some [CallRequestRedraw]\<rparr>]\<rparr>)
            = Some (Inr st')
        \<and> sceneDraws st' = 1 \<and> \<not> redrawRequested st')
 \<and> (\<exists>st'. mainLoopIteration (\<lambda>cb st. None) idleFrame
              (initialState\<lparr>redrawNextFrame := False, userCallback := Some [CallRequestRedraw]\<rparr>)
            = Some (Inr st')
        \<and> sceneDraws st' = 1 \<and> \<not> redrawRequested st')
 \<and> (\<exists>st'. mainLoopIteration (\<lambda>cb st. None) idleFrame
              (initialState\<lparr>redrawNextFrame := False,
                 userCallback := Some [CallRemoveStructure ''nothing'']\<rparr>)
            = Some (Inr st')
        \<and> sceneDraws st' = 0 \<and> \<not> redrawRequested st')
 \<and> (\<exists>shown. drawGui (\<lambda>cb st. None) idleFrame True
              (initialState\<lparr>userCallback := Some [CallRemoveStructure ''nothing'']\<rparr>)
            = Some (Inr shown)
        \<and> sceneDraws shown = 0 \<and> redrawRequested shown)"
proof -
  let ?st4 = "initialState\<lparr>redrawNextFrame := False, userCallback := Some [CallRequestRedraw]\<rparr>"
  let ?st5 = "initialState\<lparr>redrawNextFrame := False,
                 userCallback := Some [CallRemoveStructure ''nothing'']\<rparr>"
  let ?st6 = "initialState\<lparr>userCallback := Some [CallRemoveStructure ''nothing'']\<rparr>"
  let ?r = "\<lambda>(cb :: callback) (st :: state). (None :: outcome)"
  let ?st2 = "initialState\<lparr>redrawNextFrame := False\<rparr>"
  let ?st3 = "initialState\<lparr>redrawNextFrame := False,
                 contextStack := [rootEntry, \<lparr>uiContext = 1, callback = Some [CallRequestRedraw]\<rparr>]\<rparr>"
  have h3: "length (contextStack ?st3) \<noteq> 1 \<and> contextStack ?st3 \<noteq> []
      \<and> callback (last (contextStack ?st3)) = Some [CallRequestRedraw]"
    by simp
  note t3 = redraw_on_demand
    [where st = ?st3 and cb = "[CallRequestRedraw]" and reenter = ?r and io = idleFrame]
  from t3 h3 have d3: "draw ?r idleFrame True ?st3 =
      andThen (runCallback ?r [CallRequestRedraw] ?st3) (\<lambda>st0. Some (Inr (spec_sceneStep st0)))"
    by blast
  have c4: "\<exists>st'. draw ?r idleFrame True ?st3 = Some (Inr st')
        \<and> sceneDraws st' = 1 \<and> \<not> redrawRequested st'"
    by (subst d3)
       (simp add: spec_sceneStep_def redrawRequested_def requestRedraw_def initialState_def)
  have h1: "newBufferWidth idleFrame = bufferWidth initialState
      \<and> newBufferHeight idleFrame = bufferHeight initialState
      \<and> newWindowWidth idleFrame = windowWidth initialState
      \<and> newWindowHeight idleFrame = windowHeight initialState
      \<and> \<not> anyMouseDown idleFrame
      \<and> (wantCaptureMouse idleFrame
          \<or> (mouseWheelH idleFrame = Fin 0 \<and> mouseWheel idleFrame = Fin 0
              \<and> \<not> mouseDragging0 idleFrame))
      \<and> length (contextStack initialState) = 1 \<and> userCallback initialState = None
      \<and> \<not> screenshotButton idleFrame \<and> deleted initialState = []"
    by (simp add: idleFrame_def initialState_def)
  have h2: "newBufferWidth idleFrame = bufferWidth ?st2
      \<and> newBufferHeight idleFrame = bufferHeight ?st2
      \<and> newWindowWidth idleFrame = windowWidth ?st2
      \<and> newWindowHeight idleFrame = windowHeight ?st2
      \<and> \<not> anyMouseDown idleFrame
      \<and> (wantCaptureMouse idleFrame
          \<or> (mouseWheelH idleFrame = Fin 0 \<and> mouseWheel idleFrame = Fin 0
              \<and> \<not> mouseDragging0 idleFrame))
      \<and> length (contextStack ?st2) = 1 \<and> userCallback ?st2 = None
      \<and> \<not> screenshotButton idleFrame \<and> deleted ?st2 = []"
    by (simp add: idleFrame_def initialState_def)
  have d: "draw ?r idleFrame True initialState = Some (Inr (spec_sceneStep initialState))"
    by (subst draw.simps)
       (simp add: initialState_def idleFrame_def rootEntry_def buildPickGui_def
          spec_sceneStep_def redrawRequested_def drawStructures_def)
  note t1 = redraw_on_demand
    [where st = initialState and reenter = ?r and io = idleFrame and drawn = "spec_sceneStep initialState"]
  note t2 = redraw_on_demand
    [where st = ?st2 and reenter = ?r and io = idleFrame]
  from t1 h1 obtain s1 where s1: "mainLoopIteration ?r idleFrame initialState = Some (Inr s1)"
    "sceneDraws s1 = (if redrawRequested initialState \<or> alwaysRedraw initialState
                      then Suc (sceneDraws initialState) else sceneDraws initialState)"
    "\<not> redrawRequested s1"
    by blast
  from t2 h2 obtain s2 where s2: "mainLoopIteration ?r idleFrame ?st2 = Some (Inr s2)"
    "sceneDraws s2 = (if redrawRequested ?st2 \<or> alwaysRedraw ?st2
                      then Suc (sceneDraws ?st2) else sceneDraws ?st2)"
    "\<not> redrawRequested s2"
    by blast
  have c1: "sceneDraws s1 = 1" using s1(2) by (simp add: redrawRequested_def initialState_def)
  have c2: "sceneDraws s2 = 0" using s2(2) by (simp add: redrawRequested_def initialState_def)
  have c3: "\<not> redrawRequested (spec_sceneStep initialState)" using t1 d by blast
  have n4: "noReentry ?st4 \<and> \<not> screenshotButton idleFrame"
    by (simp add: noReentry_def initialState_def idleFrame_def rootEntry_def)
  have n5: "noReentry ?st5 \<and> \<not> screenshotButton idleFrame"
    by (simp add: noReentry_def initialState_def idleFrame_def rootEntry_def)
  have n6: "noReentry ?st6 \<and> \<not> screenshotButton idleFrame"
    by (simp add: noReentry_def initialState_def idleFrame_def rootEntry_def)
  have g4: "\<exists>g. drawGui ?r idleFrame True (beforeDraw idleFrame ?st4) = Some (Inr g)
                \<and> redrawRequested g"
    by (simp add: drawGui_def beforeDraw_def initialState_def idleFrame_def rootEntry_def
        processMouseEvents_def Let_def evaluatePickQuery_def resetPick_def buildPickGui_def
        requestRedraw_def redrawRequested_def)
  have g5: "\<exists>g. drawGui ?r idleFrame True (beforeDraw idleFrame ?st5) = Some (Inr g)
                \<and> \<not> redrawRequested g"
    by (simp add: drawGui_def beforeDraw_def initialState_def idleFrame_def rootEntry_def
        processMouseEvents_def Let_def evaluatePickQuery_def resetPick_def buildPickGui_def
        requestRedraw_def redrawRequested_def removeStructureByName_def error_def)
  have g6: "\<exists>g. drawGui ?r idleFrame True ?st6 = Some (Inr g)"
    by (simp add: drawGui_def initialState_def idleFrame_def rootEntry_def buildPickGui_def
        removeStructureByName_def error_def)
  have e4: "\<exists>x. mainLoopIteration ?r idleFrame ?st4 = Some (Inr x)"
  proof -
    from g4 obtain g where "drawGui ?r idleFrame True (beforeDraw idleFrame ?st4) = Some (Inr g)"
      by blast
    then show ?thesis
      by (simp add: mainLoopIteration_beforeDraw draw_gui_scene del: mainLoopIteration_def)
  qed
  then obtain x4 where x4: "mainLoopIteration ?r idleFrame ?st4 = Some (Inr x4)"
    by blast
  have e5: "\<exists>x. mainLoopIteration ?r idleFrame ?st5 = Some (Inr x)"
  proof -
    from g5 obtain g where "drawGui ?r idleFrame True (beforeDraw idleFrame ?st5) = Some (Inr g)"
      by blast
    then show ?thesis
      by (simp add: mainLoopIteration_beforeDraw draw_gui_scene del: mainLoopIteration_def)
  qed
  then obtain x5 where x5: "mainLoopIteration ?r idleFrame ?st5 = Some (Inr x5)"
    by blast
  from g6 obtain x6 where x6: "drawGui ?r idleFrame True ?st6 = Some (Inr x6)" by blast
  note u4 = redraw_on_demand
    [where st = ?st4 and reenter = ?r and io = idleFrame and stepped = x4]
  note u5 = redraw_on_demand
    [where st = ?st5 and reenter = ?r and io = idleFrame and stepped = x5]
  note u6 = redraw_on_demand
    [where st = ?st6 and reenter = ?r and io = idleFrame and withUI = True and shown = x6]
  from u4 n4 x4 obtain y4 where y4: "drawGui ?r idleFrame True (beforeDraw idleFrame ?st4) = Some (Inr y4)"
    "sceneDraws x4 = (if redrawRequested y4 \<or> alwaysRedraw ?st4
                      then Suc (sceneDraws ?st4) else sceneDraws ?st4)"
    "\<not> redrawRequested x4"
    by blast
  from u5 n5 x5 obtain y5 where y5: "drawGui ?r idleFrame True (beforeDraw idleFrame ?st5) = Some (Inr y5)"
    "sceneDraws x5 = (if redrawRequested y5 \<or> alwaysRedraw ?st5
                      then Suc (sceneDraws ?st5) else sceneDraws ?st5)"
    "\<not> redrawRequested x5"
    by blast
  from g4 y4(1) have r4: "redrawRequested y4" by auto
  from g5 y5(1) have r5: "\<not> redrawRequested y5" by auto
  have c5: "sceneDraws x4 = 1" using y4(2) r4 by (simp add: initialState_def)
  have c6: "sceneDraws x5 = 0" using y5(2) r5 by (simp add: initialState_def)
  from u6 n6 x6 have k6: "sceneDraws x6 = sceneDraws ?st6"
    "redrawRequested ?st6 \<longrightarrow> redrawRequested x6"
    by blast+
  have c7: "sceneDraws x6 = 0 \<and> redrawRequested x6"
    using k6 by (simp add: initialState_def redrawRequested_def)
  have w4: "\<exists>st'. mainLoopIteration ?r idleFrame ?st4 = Some (Inr st')
        \<and> sceneDraws st' = 1 \<and> \<not> redrawRequested st'"
    using x4 c5 y4(3) by blast
  have w5: "\<exists>st'. mainLoopIteration ?r idleFrame ?st5 = Some (Inr st')
        \<and> sceneDraws st' = 0 \<and> \<not> redrawRequested st'"
    using x5 c6 y5(3) by blast
  have w6: "\<exists>shown. drawGui ?r idleFrame True ?st6 = Some (Inr shown)
        \<and> sceneDraws shown = 0 \<and> redrawRequested shown"
    using x6 c7 by blast
  have w0: "(\<exists>st'. mainLoopIteration ?r idleFrame initialState = Some (Inr st')
        \<and> sceneDraws st' = 1 \<and> \<not> redrawRequested st')
   \<and> (\<exists>st'. mainLoopIteration ?r idleFrame ?st2 = Some (Inr st')
        \<and> sceneDraws st' = 0 \<and> \<not> redrawRequested st')
   \<and> draw ?r idleFrame True initialState = Some (Inr (spec_sceneStep initialState))
   \<and> \<not> redrawRequested (spec_sceneStep initialState)"
    using s1(1,3) s2(1,3) c1 c2 c3 d by blast
  show ?thesis using w0 c4 w4 w5 w6 by (intro conjI) (blast+)
qed

end
